theory Spec2Isabelle
  imports Main "HOL-Library.AList" "HOL-Library.Multiset"
begin

section \<open>JavaScript values\<close>

text \<open>
  Tasks are plain JavaScript objects that reach the program from object literals, from
  \<^verbatim>\<open>JSON.parse\<close> (local storage) and from JSON bodies (the server, the client).
  A value is therefore \<^verbatim>\<open>undefined\<close> or a JSON value. An object is the list of its
  own properties in insertion order; numbers are the integral ones (the code below only
  tests numbers for truthiness and hands them to \<^verbatim>\<open>new Date\<close>).
\<close>

datatype jsval =
    JUndefined
  | JNull
  | JBool bool
  | JNum int
  | JStr string
  | JArr "jsval list"
  | JObj "(string \<times> jsval) list"

datatype error =
    TypeError
  | TaskTitleRequired
  | TaskNotFound
  | QuotaExceeded
  | IndexedDBNotInitialized
  | DataError
  | ConstraintError
  | RequestError
  | ServerError
  | ListenerError
  | DatabaseError

text \<open>\<^verbatim>\<open>!!v\<close>: the values that count as false are \<^verbatim>\<open>undefined\<close>, \<^verbatim>\<open>null\<close>,
  \<^verbatim>\<open>false\<close>, \<^verbatim>\<open>0\<close> and the empty string.\<close>

fun truthy :: "jsval \<Rightarrow> bool" where
  "truthy JUndefined = False"
| "truthy JNull = False"
| "truthy (JBool b) = b"
| "truthy (JNum n) = (n \<noteq> 0)"
| "truthy (JStr s) = (s \<noteq> [])"
| "truthy (JArr xs) = True"
| "truthy (JObj ps) = True"

fun isObject :: "jsval \<Rightarrow> bool" where
  "isObject (JObj ps) = True"
| "isObject v = False"

fun isPrimitive :: "jsval \<Rightarrow> bool" where
  "isPrimitive (JArr xs) = False"
| "isPrimitive (JObj ps) = False"
| "isPrimitive v = True"

text \<open>
  \<^verbatim>\<open>v.k\<close> for the property names the program reads (\<^verbatim>\<open>id\<close>, \<^verbatim>\<open>title\<close>,
  \<^verbatim>\<open>updatedAt\<close>, \<^verbatim>\<open>tasks\<close>, ...): a \<^verbatim>\<open>TypeError\<close> on \<^verbatim>\<open>undefined\<close> and
  \<^verbatim>\<open>null\<close>, the property's value on an object that has it, \<^verbatim>\<open>undefined\<close> in every
  other case (no primitive wrapper or array prototype carries one of these names).
\<close>

fun lookupProp :: "(string \<times> jsval) list \<Rightarrow> string \<Rightarrow> jsval" where
  "lookupProp [] k = JUndefined"
| "lookupProp ((k', v) # ps) k = (if k' = k then v else lookupProp ps k)"

fun getProp :: "jsval \<Rightarrow> string \<Rightarrow> error + jsval" where
  "getProp JUndefined k = Inl TypeError"
| "getProp JNull k = Inl TypeError"
| "getProp (JObj ps) k = Inr (lookupProp ps k)"
| "getProp v k = Inr JUndefined"

text \<open>The same read where the receiver is known not to be \<^verbatim>\<open>undefined\<close> or \<^verbatim>\<open>null\<close>.\<close>

fun propOf :: "jsval \<Rightarrow> string \<Rightarrow> jsval" where
  "propOf (JObj ps) k = lookupProp ps k"
| "propOf v k = JUndefined"

definition taskId :: "jsval \<Rightarrow> jsval" where
  "taskId t = propOf t ''id''"

definition taskUpdatedAt :: "jsval \<Rightarrow> jsval" where
  "taskUpdatedAt t = propOf t ''updatedAt''"

definition taskTitle :: "jsval \<Rightarrow> jsval" where
  "taskTitle t = propOf t ''title''"

subsection \<open>The \<^verbatim>\<open>Map\<close> class\<close>

text \<open>
  A \<^verbatim>\<open>Map\<close> keeps its entries in insertion order and compares keys with SameValueZero:
  primitives by value, objects and arrays by reference. Every object of this program
  comes out of its own literal or its own JSON document, so two object keys are never the
  same reference.
\<close>

type_synonym jsmap = "(jsval \<times> jsval) list"

definition sameValueZero :: "jsval \<Rightarrow> jsval \<Rightarrow> bool" where
  "sameValueZero a b = (isPrimitive a \<and> a = b)"

fun mapGet :: "jsmap \<Rightarrow> jsval \<Rightarrow> jsval" where
  "mapGet [] k = JUndefined"
| "mapGet ((k', v) # m) k = (if sameValueZero k' k then v else mapGet m k)"

fun mapHas :: "jsmap \<Rightarrow> jsval \<Rightarrow> bool" where
  "mapHas [] k = False"
| "mapHas ((k', v) # m) k = (if sameValueZero k' k then True else mapHas m k)"

fun mapSet :: "jsmap \<Rightarrow> jsval \<Rightarrow> jsval \<Rightarrow> jsmap" where
  "mapSet [] k v = [(k, v)]"
| "mapSet ((k', v') # m) k v =
     (if sameValueZero k' k then (k', v) # m else (k', v') # mapSet m k v)"

definition mapValues :: "jsmap \<Rightarrow> jsval list" where
  "mapValues m = map snd m"

subsection \<open>Dates\<close>

text \<open>
  \<^verbatim>\<open>new Date(v)\<close> is the platform's: the development takes it as a parameter
  \<open>D :: jsval \<Rightarrow> int option\<close>, the time value of the date in milliseconds, \<open>None\<close> for an
  Invalid Date (time value NaN). Relational operators on two dates compare the time
  values, and every comparison with NaN is false.
\<close>

type_synonym dateCtor = "jsval \<Rightarrow> int option"

fun dateGe :: "int option \<Rightarrow> int option \<Rightarrow> bool" where
  "dateGe (Some a) (Some b) = (a \<ge> b)"
| "dateGe a b = False"

fun dateGt :: "int option \<Rightarrow> int option \<Rightarrow> bool" where
  "dateGt (Some a) (Some b) = (a > b)"
| "dateGt a b = False"

section \<open>TaskManager.mergeTasks\<close>

text \<open>A request handed to the ApiClient: \<^verbatim>\<open>apiClient.updateTask(id, task)\<close> and so on.\<close>

datatype apiCall =
    ApiCreateTask jsval
  | ApiUpdateTask jsval jsval
  | ApiDeleteTask jsval
  | ApiGetTasks

text \<open>
  \<^verbatim>\<open>tasks.forEach(task => taskMap.set(task.id, task))\<close>, which is also what
  \<^verbatim>\<open>new Map(tasks.map(task => [task.id, task]))\<close> does: a later entry with the same
  id replaces the earlier one in place.
\<close>

fun setAllById :: "jsmap \<Rightarrow> jsval list \<Rightarrow> error + jsmap" where
  "setAllById m [] = Inr m"
| "setAllById m (t # ts) =
     (case getProp t ''id'' of
        Inl e \<Rightarrow> Inl e
      | Inr k \<Rightarrow> setAllById (mapSet m k t) ts)"

text \<open>
  Second loop, over the server's tasks. The map's entry for the id is called
  \<^verbatim>\<open>localTask\<close>; a server task replaces it when \<^verbatim>\<open>serverUpdated >= localUpdated\<close>,
  otherwise the entry stays and \<^verbatim>\<open>apiClient.updateTask(task.id, localTask)\<close> is issued.
  The calls issued so far are returned also when a later element throws.
\<close>

fun mergeServer :: "dateCtor \<Rightarrow> jsmap \<Rightarrow> apiCall list \<Rightarrow> jsval list
    \<Rightarrow> (error + jsmap) \<times> apiCall list" where
  "mergeServer D m calls [] = (Inr m, calls)"
| "mergeServer D m calls (t # ts) =
     (case getProp t ''id'' of
        Inl e \<Rightarrow> (Inl e, calls)
      | Inr k \<Rightarrow>
          (let localTask = mapGet m k in
           if \<not> truthy localTask then mergeServer D (mapSet m k t) calls ts
           else
             (let serverUpdated = D (propOf t ''updatedAt'');
                  localUpdated = D (propOf localTask ''updatedAt'')
              in if dateGe serverUpdated localUpdated
                 then mergeServer D (mapSet m k t) calls ts
                 else mergeServer D m (calls @ [ApiUpdateTask k localTask]) ts)))"

section \<open>The state of the client\<close>

text \<open>
  The text under the key \<^verbatim>\<open>taskflow_tasks\<close> of \<^verbatim>\<open>localStorage\<close> is represented by
  what \<^verbatim>\<open>JSON.parse\<close> does with it: it throws, or it returns the value the text denotes.
\<close>

datatype lsText = NotJSON | JSONText jsval

text \<open>
  The StorageManager's fields (\<^verbatim>\<open>useIndexedDB\<close>, and whether \<^verbatim>\<open>db\<close> is an open
  database rather than \<^verbatim>\<open>null\<close>) together with the browser storage it reads and writes:
  the \<^verbatim>\<open>localStorage\<close> item, which documents \<^verbatim>\<open>setItem\<close> accepts (the others exceed
  the quota), the records of the object store \<^verbatim>\<open>tasks\<close> in key order, and whether a
  \<^verbatim>\<open>getAll\<close> request on it ends in \<^verbatim>\<open>onerror\<close>.
\<close>

record storageManager =
  useIndexedDB :: bool
  db :: bool
  localStorageItem :: "lsText option"
  localStorageAccepts :: "jsval \<Rightarrow> bool"
  objectStore :: "jsval list"
  getAllFails :: bool

text \<open>
  A callback registered with \<^verbatim>\<open>on(event, callback)\<close> is represented by what a call
  of it throws, as a function of the data it is called with (\<open>None\<close> when the call
  returns). What else a callback does, to the page or elsewhere, is outside this
  development.
\<close>

type_synonym listener = "jsval \<Rightarrow> error option"

text \<open>
  The TaskManager's fields, with the requests handed to its ApiClient so far and the
  events passed to \<^verbatim>\<open>emit\<close> so far. \<^verbatim>\<open>eventListeners\<close> holds the callbacks in the
  order of their registration, each with the name of its event.
\<close>

record taskManager =
  tasks :: "jsval list"
  storageManager :: storageManager
  lastSyncTime :: jsval
  apiRequests :: "apiCall list"
  emitted :: "(string \<times> jsval) list"
  eventListeners :: "(string \<times> listener) list"

text \<open>
  \<^verbatim>\<open>mergeTasks(localTasks, serverTasks)\<close>. The method reads no field of the manager but
  \<^verbatim>\<open>apiClient\<close>; the requests it hands over are appended to \<open>apiRequests\<close>.
\<close>

definition mergeTasks :: "dateCtor \<Rightarrow> taskManager \<Rightarrow> jsval list \<Rightarrow> jsval list
    \<Rightarrow> (error + jsval list) \<times> taskManager" where
  "mergeTasks D tm localTasks serverTasks =
     (case setAllById [] localTasks of
        Inl e \<Rightarrow> (Inl e, tm)
      | Inr taskMap \<Rightarrow>
          (case mergeServer D taskMap [] serverTasks of
             (Inl e, calls) \<Rightarrow> (Inl e, tm\<lparr>apiRequests := apiRequests tm @ calls\<rparr>)
           | (Inr taskMap', calls) \<Rightarrow>
               (Inr (mapValues taskMap'), tm\<lparr>apiRequests := apiRequests tm @ calls\<rparr>)))"

section \<open>StorageManager\<close>

subsection \<open>\<^verbatim>\<open>JSON.stringify\<close> and \<^verbatim>\<open>JSON.parse\<close>\<close>

text \<open>
  The value that \<^verbatim>\<open>JSON.parse(JSON.stringify(v))\<close> returns for a value \<open>v\<close> inside a
  document: a property whose value is \<^verbatim>\<open>undefined\<close> is left out, \<^verbatim>\<open>undefined\<close> as
  an array element becomes \<^verbatim>\<open>null\<close>, everything else comes back as it was.
\<close>

fun jsonValue :: "jsval \<Rightarrow> jsval" where
  "jsonValue JUndefined = JNull"
| "jsonValue (JArr xs) = JArr (map jsonValue xs)"
| "jsonValue (JObj ps) =
     JObj (map (\<lambda>p. (fst p, jsonValue (snd p))) (filter (\<lambda>p. snd p \<noteq> JUndefined) ps))"
| "jsonValue v = v"

subsection \<open>The \<^verbatim>\<open>localStorage\<close> backend\<close>

text \<open>
  The object that \<^verbatim>\<open>saveTasksLocalStorage\<close> serialises; \<open>now\<close> is what
  \<^verbatim>\<open>new Date().toISOString()\<close> returns at the call.
\<close>

definition storedDocument :: "string \<Rightarrow> jsval list \<Rightarrow> jsval" where
  "storedDocument now ts =
     JObj [(''version'', JStr ''1.0''), (''timestamp'', JStr now), (''tasks'', JArr ts)]"

text \<open>
  \<^verbatim>\<open>saveTasksLocalStorage(tasks)\<close>: \<^verbatim>\<open>setItem\<close> stores the text of the document, or
  throws when the text does not fit the quota; the \<^verbatim>\<open>catch\<close> turns that into a
  rejected promise and the item stays as it was.
\<close>

definition saveTasksLocalStorage :: "string \<Rightarrow> jsval list \<Rightarrow> storageManager
    \<Rightarrow> (error + unit) \<times> storageManager" where
  "saveTasksLocalStorage now ts st =
     (let text = jsonValue (storedDocument now ts) in
      if localStorageAccepts st text
      then (Inr (), st\<lparr>localStorageItem := Some (JSONText text)\<rparr>)
      else (Inl QuotaExceeded, st))"

text \<open>
  \<^verbatim>\<open>loadTasksLocalStorage()\<close>: no item, a text that \<^verbatim>\<open>JSON.parse\<close> rejects (the
  \<^verbatim>\<open>catch\<close>) and a parsed value that fails
  \<^verbatim>\<open>parsed && parsed.tasks && Array.isArray(parsed.tasks)\<close> all give the empty array.
  The entries of the array are returned as they are.
\<close>

fun isArray :: "jsval \<Rightarrow> bool" where
  "isArray (JArr xs) = True"
| "isArray v = False"

fun arrayElements :: "jsval \<Rightarrow> jsval list" where
  "arrayElements (JArr xs) = xs"
| "arrayElements v = []"

definition loadTasksLocalStorage :: "storageManager \<Rightarrow> error + jsval list" where
  "loadTasksLocalStorage st =
     (case localStorageItem st of
        None \<Rightarrow> Inr []
      | Some NotJSON \<Rightarrow> Inr []
      | Some (JSONText parsed) \<Rightarrow>
          (if truthy parsed \<and> truthy (propOf parsed ''tasks'') \<and> isArray (propOf parsed ''tasks'')
           then Inr (arrayElements (propOf parsed ''tasks''))
           else Inr []))"

definition clearTasksLocalStorage :: "storageManager \<Rightarrow> (error + unit) \<times> storageManager" where
  "clearTasksLocalStorage st = (Inr (), st\<lparr>localStorageItem := None\<rparr>)"

subsection \<open>The IndexedDB backend\<close>

text \<open>
  The object store \<^verbatim>\<open>tasks\<close> has the key path \<^verbatim>\<open>id\<close>. A key is a number, a string
  or an array of keys; keys are compared by value, numbers before strings before arrays,
  strings by their code units and arrays element by element.
\<close>

fun validKey :: "jsval \<Rightarrow> bool" where
  "validKey (JNum n) = True"
| "validKey (JStr s) = True"
| "validKey (JArr xs) = list_all validKey xs"
| "validKey v = False"

fun stringLess :: "string \<Rightarrow> string \<Rightarrow> bool" where
  "stringLess [] [] = False"
| "stringLess [] (y # ys) = True"
| "stringLess (x # xs) [] = False"
| "stringLess (x # xs) (y # ys) =
     ((of_char x :: nat) < of_char y \<or> (x = y \<and> stringLess xs ys))"

fun keyLess :: "jsval \<Rightarrow> jsval \<Rightarrow> bool"
  and keysLess :: "jsval list \<Rightarrow> jsval list \<Rightarrow> bool" where
  "keyLess (JNum a) (JNum b) = (a < b)"
| "keyLess (JNum a) (JStr b) = True"
| "keyLess (JNum a) (JArr b) = True"
| "keyLess (JStr a) (JStr b) = stringLess a b"
| "keyLess (JStr a) (JArr b) = True"
| "keyLess (JArr a) (JArr b) = keysLess a b"
| "keyLess a b = False"
| "keysLess [] [] = False"
| "keysLess [] (y # ys) = True"
| "keysLess (x # xs) [] = False"
| "keysLess (x # xs) (y # ys) = (keyLess x y \<or> (x = y \<and> keysLess xs ys))"

text \<open>A successful \<^verbatim>\<open>store.add(task)\<close>: the record takes its place in key order.\<close>

fun addRecord :: "jsval \<Rightarrow> jsval list \<Rightarrow> jsval list" where
  "addRecord t [] = [t]"
| "addRecord t (r # rs) =
     (if keyLess (taskId t) (taskId r) then t # r # rs else r # addRecord t rs)"

fun addRecords :: "jsval list \<Rightarrow> jsval list \<Rightarrow> jsval list" where
  "addRecords rs [] = rs"
| "addRecords rs (t # ts) = addRecords (addRecord t rs) ts"

text \<open>
  \<^verbatim>\<open>saveTasksIndexedDB(tasks)\<close>. One transaction: \<^verbatim>\<open>store.clear()\<close>, then
  \<^verbatim>\<open>store.add(task)\<close> for each task. An \<^verbatim>\<open>add\<close> of a task without a valid key throws
  a DataError at once: the promise is rejected and no further \<^verbatim>\<open>add\<close> is requested, but
  the requests made so far still run. When they run, an \<^verbatim>\<open>add\<close> whose key the store
  already has fails with a ConstraintError, which aborts the transaction and leaves the
  store as it was before; otherwise the transaction commits.
\<close>

definition saveTasksIndexedDB :: "jsval list \<Rightarrow> storageManager
    \<Rightarrow> (error + unit) \<times> storageManager" where
  "saveTasksIndexedDB ts st =
     (if \<not> db st then (Inl IndexedDBNotInitialized, st)
      else
        (let requested = takeWhile (\<lambda>t. validKey (taskId t)) ts;
             thrown = (length requested < length ts)
         in if \<not> distinct (map taskId requested)
            then (Inl (if thrown then DataError else ConstraintError), st)
            else (if thrown then Inl DataError else Inr (),
                  st\<lparr>objectStore := addRecords [] requested\<rparr>)))"

text \<open>\<^verbatim>\<open>loadTasksIndexedDB()\<close>: \<^verbatim>\<open>store.getAll()\<close>, rejected when the request fails.\<close>

definition loadTasksIndexedDB :: "storageManager \<Rightarrow> error + jsval list" where
  "loadTasksIndexedDB st =
     (if \<not> db st then Inl IndexedDBNotInitialized
      else if getAllFails st then Inl RequestError
      else Inr (objectStore st))"

definition clearTasksIndexedDB :: "storageManager \<Rightarrow> (error + unit) \<times> storageManager" where
  "clearTasksIndexedDB st =
     (if \<not> db st then (Inl IndexedDBNotInitialized, st)
      else (Inr (), st\<lparr>objectStore := []\<rparr>))"

subsection \<open>The public interface\<close>

definition saveTasks :: "string \<Rightarrow> jsval list \<Rightarrow> storageManager
    \<Rightarrow> (error + unit) \<times> storageManager" where
  "saveTasks now ts st =
     (if useIndexedDB st then saveTasksIndexedDB ts st else saveTasksLocalStorage now ts st)"

definition loadTasks :: "storageManager \<Rightarrow> error + jsval list" where
  "loadTasks st = (if useIndexedDB st then loadTasksIndexedDB st else loadTasksLocalStorage st)"

definition clearTasks :: "storageManager \<Rightarrow> (error + unit) \<times> storageManager" where
  "clearTasks st = (if useIndexedDB st then clearTasksIndexedDB st else clearTasksLocalStorage st)"

subsection \<open>\<^verbatim>\<open>cleanup()\<close>\<close>

text \<open>
  The filter of \<^verbatim>\<open>cleanup\<close>:
  \<^verbatim>\<open>task && typeof task === 'object' && task.id && task.title && task.createdAt && task.updatedAt\<close>.
  \<^verbatim>\<open>typeof\<close> is \<^verbatim>\<open>'object'\<close> for objects, arrays and \<^verbatim>\<open>null\<close>.
\<close>

fun typeofObject :: "jsval \<Rightarrow> bool" where
  "typeofObject JNull = True"
| "typeofObject (JArr xs) = True"
| "typeofObject (JObj ps) = True"
| "typeofObject v = False"

definition validEntry :: "jsval \<Rightarrow> bool" where
  "validEntry task =
     (truthy task \<and> typeofObject task \<and> truthy (propOf task ''id'') \<and> truthy (propOf task ''title'')
      \<and> truthy (propOf task ''createdAt'') \<and> truthy (propOf task ''updatedAt''))"

text \<open>
  \<^verbatim>\<open>cleanup()\<close> loads, filters, saves the filtered array when it is shorter, and returns
  it; an error of the load or of the save is logged and thrown again.
\<close>

definition cleanup :: "string \<Rightarrow> storageManager \<Rightarrow> (error + jsval list) \<times> storageManager" where
  "cleanup now st =
     (case loadTasks st of
        Inl e \<Rightarrow> (Inl e, st)
      | Inr ts \<Rightarrow>
          (let validTasks = filter validEntry ts in
           if length validTasks \<noteq> length ts
           then (case saveTasks now validTasks st of
                   (Inl e, st') \<Rightarrow> (Inl e, st')
                 | (Inr u, st') \<Rightarrow> (Inr validTasks, st'))
           else (Inr validTasks, st)))"

section \<open>TaskManager\<close>

subsection \<open>Strings and objects\<close>

text \<open>
  \<^verbatim>\<open>String.prototype.trim\<close>. A string is the list of its code units, which are below
  256 here; the white space and line terminators among them are TAB, LF, VT, FF, CR, SP
  and NBSP.
\<close>

definition isWhiteSpace :: "char \<Rightarrow> bool" where
  "isWhiteSpace c = ((of_char c :: nat) \<in> {9, 10, 11, 12, 13, 32, 160})"

definition trim :: "string \<Rightarrow> string" where
  "trim s = rev (dropWhile isWhiteSpace (rev (dropWhile isWhiteSpace s)))"

text \<open>\<^verbatim>\<open>a || b\<close>.\<close>

definition orElse :: "jsval \<Rightarrow> jsval \<Rightarrow> jsval" where
  "orElse a b = (if truthy a then a else b)"

text \<open>
  \<^verbatim>\<open>!v.trim()\<close> for the value of a \<^verbatim>\<open>title\<close> property: true or false on a string,
  a \<^verbatim>\<open>TypeError\<close> on anything else (\<^verbatim>\<open>undefined\<close> and \<^verbatim>\<open>null\<close> have no
  properties, and no other value has a method \<^verbatim>\<open>trim\<close>).
\<close>

fun trimsToEmpty :: "jsval \<Rightarrow> error + bool" where
  "trimsToEmpty (JStr s) = Inr (trim s = [])"
| "trimsToEmpty v = Inl TypeError"

text \<open>
  Assignment to a property, and the object spread \<^verbatim>\<open>{...a, ...b}\<close> on the own
  properties of \<open>a\<close> and \<open>b\<close>: a property that \<open>a\<close> has keeps its place and takes the
  value of \<open>b\<close>, a new one is appended.
\<close>

fun setProp :: "(string \<times> jsval) list \<Rightarrow> string \<Rightarrow> jsval \<Rightarrow> (string \<times> jsval) list" where
  "setProp [] k v = [(k, v)]"
| "setProp ((k', v') # ps) k v = (if k' = k then (k', v) # ps else (k', v') # setProp ps k v)"

fun spreadInto :: "(string \<times> jsval) list \<Rightarrow> (string \<times> jsval) list \<Rightarrow> (string \<times> jsval) list" where
  "spreadInto ps [] = ps"
| "spreadInto ps ((k, v) # qs) = spreadInto (setProp ps k v) qs"

text \<open>The own properties that a spread copies from an element of \<^verbatim>\<open>this.tasks\<close>.\<close>

fun ownProps :: "jsval \<Rightarrow> (string \<times> jsval) list" where
  "ownProps (JObj ps) = ps"
| "ownProps v = []"

text \<open>
  \<^verbatim>\<open>this.tasks.findIndex(t => t.id === taskId)\<close> for a string \<open>tid\<close>: the first
  index whose element has that id; reading \<^verbatim>\<open>t.id\<close> throws on an element that is
  \<^verbatim>\<open>null\<close> or \<^verbatim>\<open>undefined\<close>.
\<close>

fun findIndexById :: "string \<Rightarrow> jsval list \<Rightarrow> error + nat option" where
  "findIndexById tid [] = Inr None"
| "findIndexById tid (t # ts) =
     (case getProp t ''id'' of
        Inl e \<Rightarrow> Inl e
      | Inr v \<Rightarrow>
          (if v = JStr tid then Inr (Some 0)
           else (case findIndexById tid ts of
                   Inl e \<Rightarrow> Inl e
                 | Inr None \<Rightarrow> Inr None
                 | Inr (Some i) \<Rightarrow> Inr (Some (Suc i)))))"

subsection \<open>Events\<close>


text \<open>
  \<^verbatim>\<open>this.eventListeners[event].forEach(callback => callback(data))\<close>: the callbacks
  of the event are called in the order of their registration, and the first one that
  throws ends the loop with its error.
\<close>

fun callAll :: "listener list \<Rightarrow> jsval \<Rightarrow> error option" where
  "callAll [] d = None"
| "callAll (callback # cs) d = (case callback d of Some e \<Rightarrow> Some e | None \<Rightarrow> callAll cs d)"

definition listenersOf :: "taskManager \<Rightarrow> string \<Rightarrow> listener list" where
  "listenersOf tm event = map snd (filter (\<lambda>p. fst p = event) (eventListeners tm))"

text \<open>
  \<^verbatim>\<open>emit(event, data)\<close> has no \<^verbatim>\<open>try\<close>: the error of a callback is thrown to the
  caller of \<^verbatim>\<open>emit\<close>.
\<close>

definition emit :: "string \<Rightarrow> jsval \<Rightarrow> taskManager \<Rightarrow> (error + unit) \<times> taskManager" where
  "emit event d tm =
     ((case callAll (listenersOf tm event) d of None \<Rightarrow> Inr () | Some e \<Rightarrow> Inl e),
      tm\<lparr>emitted := emitted tm @ [(event, d)]\<rparr>)"

subsection \<open>\<^verbatim>\<open>createTask\<close>\<close>

text \<open>
  What the environment supplies to one call of \<^verbatim>\<open>createTask\<close>: the id that
  \<^verbatim>\<open>generateId()\<close> returns and the three readings of the clock, as ISO strings
  (\<^verbatim>\<open>createdAt\<close>, \<^verbatim>\<open>updatedAt\<close>, and the time stamp of the saved document).
\<close>

record createEnv =
  newId :: string
  createdNow :: string
  updatedNow :: string
  savedNow :: string

definition newTask :: "createEnv \<Rightarrow> jsval \<Rightarrow> jsval" where
  "newTask env taskData =
     JObj [(''id'', JStr (newId env)),
           (''title'', orElse (propOf taskData ''title'') (JStr [])),
           (''description'', orElse (propOf taskData ''description'') (JStr [])),
           (''category'', orElse (propOf taskData ''category'') (JStr [])),
           (''priority'', orElse (propOf taskData ''priority'') (JStr ''Medium'')),
           (''status'', orElse (propOf taskData ''status'') (JStr ''todo'')),
           (''dueDate'', orElse (propOf taskData ''dueDate'') JNull),
           (''createdAt'', JStr (createdNow env)),
           (''updatedAt'', JStr (updatedNow env))]"

text \<open>
  \<^verbatim>\<open>createTask(taskData)\<close>. Reading \<^verbatim>\<open>taskData.title\<close> throws on \<^verbatim>\<open>null\<close> and
  \<^verbatim>\<open>undefined\<close>. After the validation the task is pushed, the array is saved (a failed
  save rejects the call, with the task already pushed), the task is sent to the server
  (a failure there is caught and logged) and the two events are emitted (a callback
  that throws rejects the call, with the task pushed, saved and sent).
\<close>

definition createTask :: "createEnv \<Rightarrow> jsval \<Rightarrow> taskManager \<Rightarrow> (error + jsval) \<times> taskManager" where
  "createTask env taskData tm =
     (case getProp taskData ''title'' of
        Inl e \<Rightarrow> (Inl e, tm)
      | Inr t \<Rightarrow>
          (let task = newTask env taskData in
           case trimsToEmpty (propOf task ''title'') of
             Inl e \<Rightarrow> (Inl e, tm)
           | Inr True \<Rightarrow> (Inl TaskTitleRequired, tm)
           | Inr False \<Rightarrow>
               (let pushed = tasks tm @ [task] in
                case saveTasks (savedNow env) pushed (storageManager tm) of
                  (Inl e, st) \<Rightarrow> (Inl e, tm\<lparr>tasks := pushed, storageManager := st\<rparr>)
                | (Inr u, st) \<Rightarrow>
                    (case emit ''taskCreated'' task
                            (tm\<lparr>tasks := pushed, storageManager := st,
                               apiRequests := apiRequests tm @ [ApiCreateTask task]\<rparr>) of
                       (Inl e, tm1) \<Rightarrow> (Inl e, tm1)
                     | (Inr u1, tm1) \<Rightarrow>
                         (case emit ''tasksUpdated'' (JArr pushed) tm1 of
                            (Inl e, tm2) \<Rightarrow> (Inl e, tm2)
                          | (Inr u2, tm2) \<Rightarrow> (Inr task, tm2))))))"

subsection \<open>\<^verbatim>\<open>updateTask\<close>\<close>

text \<open>
  \<^verbatim>\<open>updateTask(taskId, updates)\<close> for a string \<open>tid\<close> and an object \<open>updates\<close>, given
  by its own properties. \<open>now\<close> is the clock's reading for \<^verbatim>\<open>updatedAt\<close>, \<open>saved\<close> the
  one for the saved document. The steps after the validation are those of
  \<^verbatim>\<open>createTask\<close>: replace, save, send, emit.
\<close>

definition updatedTaskOf :: "string \<Rightarrow> jsval \<Rightarrow> (string \<times> jsval) list \<Rightarrow> jsval" where
  "updatedTaskOf now old updates =
     JObj (setProp (spreadInto (ownProps old) updates) ''updatedAt'' (JStr now))"

definition updateTask :: "string \<Rightarrow> string \<Rightarrow> string \<Rightarrow> (string \<times> jsval) list \<Rightarrow> taskManager
    \<Rightarrow> (error + jsval) \<times> taskManager" where
  "updateTask now saved tid updates tm =
     (case findIndexById tid (tasks tm) of
        Inl e \<Rightarrow> (Inl e, tm)
      | Inr None \<Rightarrow> (Inl TaskNotFound, tm)
      | Inr (Some taskIndex) \<Rightarrow>
          (let updatedTask = updatedTaskOf now (tasks tm ! taskIndex) updates in
           case trimsToEmpty (propOf updatedTask ''title'') of
             Inl e \<Rightarrow> (Inl e, tm)
           | Inr True \<Rightarrow> (Inl TaskTitleRequired, tm)
           | Inr False \<Rightarrow>
               (let replaced = (tasks tm)[taskIndex := updatedTask] in
                case saveTasks saved replaced (storageManager tm) of
                  (Inl e, st) \<Rightarrow> (Inl e, tm\<lparr>tasks := replaced, storageManager := st\<rparr>)
                | (Inr u, st) \<Rightarrow>
                    (case emit ''taskUpdated'' updatedTask
                            (tm\<lparr>tasks := replaced, storageManager := st,
                               apiRequests := apiRequests tm
                                 @ [ApiUpdateTask (JStr tid) updatedTask]\<rparr>) of
                       (Inl e, tm1) \<Rightarrow> (Inl e, tm1)
                     | (Inr u1, tm1) \<Rightarrow>
                         (case emit ''tasksUpdated'' (JArr replaced) tm1 of
                            (Inl e, tm2) \<Rightarrow> (Inl e, tm2)
                          | (Inr u2, tm2) \<Rightarrow> (Inr updatedTask, tm2))))))"

subsection \<open>\<^verbatim>\<open>loadTasks\<close> and \<^verbatim>\<open>syncWithServer\<close>\<close>

text \<open>
  \<^verbatim>\<open>TaskManager.loadTasks()\<close>: the loaded array becomes \<^verbatim>\<open>this.tasks\<close> as it is; when
  the store rejects, or a callback of \<^verbatim>\<open>tasksUpdated\<close> throws, the \<^verbatim>\<open>catch\<close> sets and
  returns the empty array.
\<close>

definition managerLoadTasks :: "taskManager \<Rightarrow> jsval list \<times> taskManager" where
  "managerLoadTasks tm =
     (case loadTasks (storageManager tm) of
        Inr localTasks \<Rightarrow>
          (case emit ''tasksUpdated'' (JArr localTasks) (tm\<lparr>tasks := localTasks\<rparr>) of
             (Inr u, tm1) \<Rightarrow> (localTasks, tm1)
           | (Inl e, tm1) \<Rightarrow> ([], tm1\<lparr>tasks := []\<rparr>))
      | Inl e \<Rightarrow> ([], tm\<lparr>tasks := []\<rparr>))"

text \<open>
  \<^verbatim>\<open>syncWithServer()\<close>. \<open>response\<close> is the outcome of \<^verbatim>\<open>apiClient.getTasks()\<close>: an
  error, or the array of the server's tasks. \<open>synced\<close> is \<^verbatim>\<open>new Date()\<close> after the save,
  \<open>saved\<close> the clock's reading for the saved document. Every error is logged and thrown
  again.
\<close>

definition syncWithServer :: "dateCtor \<Rightarrow> string \<Rightarrow> jsval \<Rightarrow> error + jsval list \<Rightarrow> taskManager
    \<Rightarrow> (error + jsval list) \<times> taskManager" where
  "syncWithServer D saved synced response tm =
     (let tm0 = tm\<lparr>apiRequests := apiRequests tm @ [ApiGetTasks]\<rparr> in
      case response of
        Inl e \<Rightarrow> (Inl e, tm0)
      | Inr serverTasks \<Rightarrow>
          (case mergeTasks D tm0 (tasks tm0) serverTasks of
             (Inl e, tm1) \<Rightarrow> (Inl e, tm1)
           | (Inr mergedTasks, tm1) \<Rightarrow>
               (case saveTasks saved mergedTasks (storageManager tm1) of
                  (Inl e, st) \<Rightarrow> (Inl e, tm1\<lparr>tasks := mergedTasks, storageManager := st\<rparr>)
                | (Inr u, st) \<Rightarrow>
                    (case emit ''tasksUpdated'' (JArr mergedTasks)
                            (tm1\<lparr>tasks := mergedTasks, storageManager := st,
                                lastSyncTime := synced\<rparr>) of
                       (Inl e, tm2) \<Rightarrow> (Inl e, tm2)
                     | (Inr u1, tm2) \<Rightarrow> (Inr mergedTasks, tm2)))))"

section \<open>POST /sync\<close>

subsection \<open>The database\<close>

text \<open>
  The handler talks to PostgreSQL through one client of the pool. The database is not
  code of this repository: it is a parameter \<open>pg\<close> that gives the answer to a call, an
  error or the rows of the result, from the calls of this request made before it and
  their answers. A row is the list of its columns. A time stamp column holds a
  \<^verbatim>\<open>Date\<close> object; the handler only copies it and hands it to \<^verbatim>\<open>new Date\<close>, which the
  parameter \<open>D\<close> covers.
\<close>

type_synonym row = "(string \<times> jsval) list"

text \<open>A query parameter: a value, or the \<^verbatim>\<open>Date\<close> object that \<^verbatim>\<open>new Date(v)\<close> made.\<close>

datatype sqlParam = Val jsval | DateParam "int option"

text \<open>
  The calls of the handler: \<^verbatim>\<open>pool.connect()\<close>, and \<^verbatim>\<open>client.query\<close> with
  \<^verbatim>\<open>BEGIN\<close>, the \<^verbatim>\<open>SELECT\<close> of the user's tasks, the \<^verbatim>\<open>INSERT ... ON CONFLICT (id)
  DO NOTHING RETURNING *\<close>, the \<^verbatim>\<open>UPDATE ... RETURNING *\<close>, \<^verbatim>\<open>COMMIT\<close> and
  \<^verbatim>\<open>ROLLBACK\<close>, each with its parameters.
\<close>

datatype pgCall =
    PgConnect
  | PgBegin
  | PgSelectTasks jsval
  | PgInsertTask "sqlParam list"
  | PgUpdateTask "sqlParam list"
  | PgCommit
  | PgRollback

type_synonym answer = "error + row list"
type_synonym pgLog = "(pgCall \<times> answer) list"
type_synonym pg = "pgLog \<Rightarrow> pgCall \<Rightarrow> answer"

definition query :: "pg \<Rightarrow> pgLog \<Rightarrow> pgCall \<Rightarrow> answer \<times> pgLog" where
  "query pg log c = (pg log c, log @ [(c, pg log c)])"

text \<open>The task object that the handler makes of a row, here and for a returned row.\<close>

definition rowToTask :: "row \<Rightarrow> jsval" where
  "rowToTask r =
     JObj [(''id'', lookupProp r ''id''),
           (''title'', lookupProp r ''title''),
           (''description'', lookupProp r ''description''),
           (''category'', lookupProp r ''category''),
           (''priority'', lookupProp r ''priority''),
           (''status'', lookupProp r ''status''),
           (''dueDate'', lookupProp r ''due_date''),
           (''createdAt'', lookupProp r ''created_at''),
           (''updatedAt'', lookupProp r ''updated_at'')]"

subsection \<open>The merge step\<close>

text \<open>
  The handler's first loop, over the client's tasks: a task the server does not hold goes
  to \<^verbatim>\<open>tasksToCreate\<close>; otherwise the client's version goes to \<^verbatim>\<open>tasksToUpdate\<close> and
  \<^verbatim>\<open>mergedTasks\<close> when \<^verbatim>\<open>clientUpdated > serverUpdated\<close>, and the server's version
  goes to \<^verbatim>\<open>mergedTasks\<close> when not.
\<close>

fun syncClientLoop :: "dateCtor \<Rightarrow> jsmap \<Rightarrow> jsval list \<times> jsval list \<times> jsval list
    \<Rightarrow> jsval list \<Rightarrow> error + jsval list \<times> jsval list \<times> jsval list" where
  "syncClientLoop D serverTaskMap acc [] = Inr acc"
| "syncClientLoop D serverTaskMap (mergedTasks, tasksToCreate, tasksToUpdate) (clientTask # cs) =
     (case getProp clientTask ''id'' of
        Inl e \<Rightarrow> Inl e
      | Inr k \<Rightarrow>
          (let serverTask = mapGet serverTaskMap k in
           if \<not> truthy serverTask
           then syncClientLoop D serverTaskMap
                  (mergedTasks, tasksToCreate @ [clientTask], tasksToUpdate) cs
           else
             (let clientUpdated = D (propOf clientTask ''updatedAt'');
                  serverUpdated = D (propOf serverTask ''updatedAt'')
              in if dateGt clientUpdated serverUpdated
                 then syncClientLoop D serverTaskMap
                        (mergedTasks @ [clientTask], tasksToCreate, tasksToUpdate @ [clientTask]) cs
                 else syncClientLoop D serverTaskMap
                        (mergedTasks @ [serverTask], tasksToCreate, tasksToUpdate) cs)))"

text \<open>The second loop: a server task whose id the client did not send is appended.\<close>

fun syncServerLoop :: "jsmap \<Rightarrow> jsval list \<Rightarrow> jsval list \<Rightarrow> error + jsval list" where
  "syncServerLoop clientTaskMap mergedTasks [] = Inr mergedTasks"
| "syncServerLoop clientTaskMap mergedTasks (serverTask # ss) =
     (case getProp serverTask ''id'' of
        Inl e \<Rightarrow> Inl e
      | Inr k \<Rightarrow>
          (if \<not> mapHas clientTaskMap k
           then syncServerLoop clientTaskMap (mergedTasks @ [serverTask]) ss
           else syncServerLoop clientTaskMap mergedTasks ss))"

text \<open>
  From the two \<^verbatim>\<open>Map\<close>s to the end of the second loop; the result is
  \<^verbatim>\<open>(mergedTasks, tasksToCreate, tasksToUpdate)\<close> as they stand before the handler
  writes to the database. The handler changes \<^verbatim>\<open>mergedTasks\<close> again below;
  \<^verbatim>\<open>tasksToCreate\<close> and \<^verbatim>\<open>tasksToUpdate\<close> are final here.
\<close>

definition syncMerge :: "dateCtor \<Rightarrow> jsval list \<Rightarrow> jsval list
    \<Rightarrow> error + jsval list \<times> jsval list \<times> jsval list" where
  "syncMerge D clientTasks serverTasks =
     (case setAllById [] serverTasks of
        Inl e \<Rightarrow> Inl e
      | Inr serverTaskMap \<Rightarrow>
          (case setAllById [] clientTasks of
             Inl e \<Rightarrow> Inl e
           | Inr clientTaskMap \<Rightarrow>
               (case syncClientLoop D serverTaskMap ([], [], []) clientTasks of
                  Inl e \<Rightarrow> Inl e
                | Inr (mergedTasks, tasksToCreate, tasksToUpdate) \<Rightarrow>
                    (case syncServerLoop clientTaskMap mergedTasks serverTasks of
                       Inl e \<Rightarrow> Inl e
                     | Inr mergedTasks' \<Rightarrow> Inr (mergedTasks', tasksToCreate, tasksToUpdate)))))"


subsection \<open>Writing to the database\<close>

text \<open>
  \<^verbatim>\<open>dueDateValue\<close>: \<^verbatim>\<open>null\<close> unless \<^verbatim>\<open>task.dueDate\<close> counts as true and is a date.
\<close>

definition dueDateValue :: "dateCtor \<Rightarrow> jsval \<Rightarrow> sqlParam" where
  "dueDateValue D task =
     (if truthy (propOf task ''dueDate'')
      then (case D (propOf task ''dueDate'') of
              None \<Rightarrow> Val JNull
            | Some t \<Rightarrow> DateParam (Some t))
      else Val JNull)"

definition insertParams :: "dateCtor \<Rightarrow> jsval \<Rightarrow> jsval \<Rightarrow> sqlParam list" where
  "insertParams D userId task =
     [Val (propOf task ''id''),
      Val userId,
      Val (propOf task ''title''),
      Val (orElse (propOf task ''description'') JNull),
      Val (orElse (propOf task ''category'') JNull),
      Val (orElse (propOf task ''priority'') (JStr ''Medium'')),
      Val (orElse (propOf task ''status'') (JStr ''todo'')),
      dueDateValue D task,
      DateParam (D (propOf task ''createdAt'')),
      DateParam (D (propOf task ''updatedAt''))]"

definition updateParams :: "dateCtor \<Rightarrow> jsval \<Rightarrow> jsval \<Rightarrow> sqlParam list" where
  "updateParams D userId task =
     [Val (propOf task ''id''),
      Val userId,
      Val (propOf task ''title''),
      Val (orElse (propOf task ''description'') JNull),
      Val (orElse (propOf task ''category'') JNull),
      Val (orElse (propOf task ''priority'') (JStr ''Medium'')),
      Val (orElse (propOf task ''status'') (JStr ''todo'')),
      dueDateValue D task,
      DateParam (D (propOf task ''updatedAt''))]"

text \<open>
  \<^verbatim>\<open>mergedTasks.findIndex(t => t.id === task.id)\<close>. Strict equality compares
  primitives by value and objects by reference; an id that is an object or an array is a
  reference of its own in every task that reaches these loops.
\<close>

definition strictEquals :: "jsval \<Rightarrow> jsval \<Rightarrow> bool" where
  "strictEquals a b = (isPrimitive a \<and> a = b)"

fun findIndexOfId :: "jsval \<Rightarrow> jsval list \<Rightarrow> error + nat option" where
  "findIndexOfId k [] = Inr None"
| "findIndexOfId k (t # ts) =
     (case getProp t ''id'' of
        Inl e \<Rightarrow> Inl e
      | Inr v \<Rightarrow>
          (if strictEquals v k then Inr (Some 0)
           else (case findIndexOfId k ts of
                   Inl e \<Rightarrow> Inl e
                 | Inr None \<Rightarrow> Inr None
                 | Inr (Some i) \<Rightarrow> Inr (Some (Suc i)))))"

text \<open>
  The loop over \<^verbatim>\<open>tasksToCreate\<close>. When the \<^verbatim>\<open>INSERT\<close> returns a row, the task made
  of it replaces the entry of \<^verbatim>\<open>mergedTasks\<close> with the id of the client's task, or is
  pushed when there is none; when it returns no row (the id is in the table already),
  \<^verbatim>\<open>mergedTasks\<close> stays as it is. An error of the query ends the loop.
\<close>

fun syncCreateLoop :: "dateCtor \<Rightarrow> pg \<Rightarrow> jsval \<Rightarrow> pgLog \<Rightarrow> jsval list \<Rightarrow> jsval list
    \<Rightarrow> (error + jsval list) \<times> pgLog" where
  "syncCreateLoop D pg userId log mergedTasks [] = (Inr mergedTasks, log)"
| "syncCreateLoop D pg userId log mergedTasks (task # ts) =
     (case query pg log (PgInsertTask (insertParams D userId task)) of
        (Inl e, log') \<Rightarrow> (Inl e, log')
      | (Inr [], log') \<Rightarrow> syncCreateLoop D pg userId log' mergedTasks ts
      | (Inr (r # rs), log') \<Rightarrow>
          (let createdTask = rowToTask r in
           case findIndexOfId (propOf task ''id'') mergedTasks of
             Inl e \<Rightarrow> (Inl e, log')
           | Inr (Some i) \<Rightarrow>
               syncCreateLoop D pg userId log' (mergedTasks[i := createdTask]) ts
           | Inr None \<Rightarrow>
               syncCreateLoop D pg userId log' (mergedTasks @ [createdTask]) ts))"

text \<open>
  The loop over \<^verbatim>\<open>tasksToUpdate\<close>: the task made of the returned row replaces the
  entry with the id of the client's task, when there is one.
\<close>

fun syncUpdateLoop :: "dateCtor \<Rightarrow> pg \<Rightarrow> jsval \<Rightarrow> pgLog \<Rightarrow> jsval list \<Rightarrow> jsval list
    \<Rightarrow> (error + jsval list) \<times> pgLog" where
  "syncUpdateLoop D pg userId log mergedTasks [] = (Inr mergedTasks, log)"
| "syncUpdateLoop D pg userId log mergedTasks (task # ts) =
     (case query pg log (PgUpdateTask (updateParams D userId task)) of
        (Inl e, log') \<Rightarrow> (Inl e, log')
      | (Inr [], log') \<Rightarrow> syncUpdateLoop D pg userId log' mergedTasks ts
      | (Inr (r # rs), log') \<Rightarrow>
          (let updatedTask = rowToTask r in
           case findIndexOfId (propOf task ''id'') mergedTasks of
             Inl e \<Rightarrow> (Inl e, log')
           | Inr (Some i) \<Rightarrow>
               syncUpdateLoop D pg userId log' (mergedTasks[i := updatedTask]) ts
           | Inr None \<Rightarrow> syncUpdateLoop D pg userId log' mergedTasks ts))"

subsection \<open>The response\<close>

text \<open>
  \<^verbatim>\<open>mergedTasks.sort((a, b) => new Date(b.updatedAt) - new Date(a.updatedAt))\<close>. The
  sort is stable. The comparison puts \<open>b\<close> before \<open>a\<close> when both dates are valid and the
  one of \<open>b\<close> is later; a difference that is NaN counts as zero. With invalid dates the
  comparison may be inconsistent, and then the order is the engine's choice, for which
  the stable insertion sort stands here.
\<close>

fun insertByDate :: "dateCtor \<Rightarrow> jsval \<Rightarrow> jsval list \<Rightarrow> jsval list" where
  "insertByDate D a [] = [a]"
| "insertByDate D a (b # bs) =
     (if dateGt (D (propOf b ''updatedAt'')) (D (propOf a ''updatedAt''))
      then b # insertByDate D a bs
      else a # b # bs)"

definition sortByUpdatedAt :: "dateCtor \<Rightarrow> jsval list \<Rightarrow> jsval list" where
  "sortByUpdatedAt D ts = foldr (insertByDate D) ts []"

record syncStats =
  total :: nat
  created :: nat
  updated :: nat
  serverOnly :: int

text \<open>
  The three responses: status 400, status 200 with \<^verbatim>\<open>tasks\<close> and \<^verbatim>\<open>stats\<close> (the
  tasks as the handler holds them, before \<^verbatim>\<open>res.json\<close> writes them), and status 500.
\<close>

datatype response = BadRequest | SyncOk "jsval list" syncStats | InternalError

text \<open>
  \<^verbatim>\<open>serverTasks.length - clientTasks.filter(ct => serverTaskMap.has(ct.id)).length\<close>,
  computed when the \<^verbatim>\<open>Map\<close> has been built.
\<close>

definition serverOnlyCount :: "jsval list \<Rightarrow> jsval list \<Rightarrow> int" where
  "serverOnlyCount serverTasks clientTasks =
     (case setAllById [] serverTasks of
        Inl e \<Rightarrow> 0
      | Inr serverTaskMap \<Rightarrow>
          int (length serverTasks)
            - int (length (filter (\<lambda>ct. mapHas serverTaskMap (propOf ct ''id'')) clientTasks)))"

text \<open>
  The inner \<^verbatim>\<open>try\<close> block, from \<^verbatim>\<open>BEGIN\<close> to the response; \<open>log\<close> holds the calls made
  before it. An error leaves the block with the calls made so far.
\<close>

definition syncTransaction :: "dateCtor \<Rightarrow> pg \<Rightarrow> jsval \<Rightarrow> jsval list \<Rightarrow> pgLog
    \<Rightarrow> (error + response) \<times> pgLog" where
  "syncTransaction D pg userId clientTasks log =
     (case query pg log PgBegin of
        (Inl e, log1) \<Rightarrow> (Inl e, log1)
      | (Inr begun, log1) \<Rightarrow>
          (case query pg log1 (PgSelectTasks userId) of
             (Inl e, log2) \<Rightarrow> (Inl e, log2)
           | (Inr rows, log2) \<Rightarrow>
               (let serverTasks = map rowToTask rows in
                case syncMerge D clientTasks serverTasks of
                  Inl e \<Rightarrow> (Inl e, log2)
                | Inr (mergedTasks, tasksToCreate, tasksToUpdate) \<Rightarrow>
                    (case syncCreateLoop D pg userId log2 mergedTasks tasksToCreate of
                       (Inl e, log3) \<Rightarrow> (Inl e, log3)
                     | (Inr mergedTasks1, log3) \<Rightarrow>
                         (case syncUpdateLoop D pg userId log3 mergedTasks1 tasksToUpdate of
                            (Inl e, log4) \<Rightarrow> (Inl e, log4)
                          | (Inr mergedTasks2, log4) \<Rightarrow>
                              (case query pg log4 PgCommit of
                                 (Inl e, log5) \<Rightarrow> (Inl e, log5)
                               | (Inr committed, log5) \<Rightarrow>
                                   (Inr (SyncOk (sortByUpdatedAt D mergedTasks2)
                                      \<lparr>total = length mergedTasks2,
                                       created = length tasksToCreate,
                                       updated = length tasksToUpdate,
                                       serverOnly = serverOnlyCount serverTasks clientTasks\<rparr>),
                                    log5)))))))"

text \<open>
  The handler for a request of the user \<open>userId\<close> with the body \<open>body\<close>, and the calls to
  the database it made. An error before the inner \<^verbatim>\<open>try\<close> gives status 500; an error
  inside it is followed by \<^verbatim>\<open>ROLLBACK\<close> and gives status 500 as well.
\<close>

definition postSync :: "dateCtor \<Rightarrow> pg \<Rightarrow> jsval \<Rightarrow> jsval \<Rightarrow> response \<times> pgLog" where
  "postSync D pg userId body =
     (case getProp body ''tasks'' of
        Inl e \<Rightarrow> (InternalError, [])
      | Inr clientTasks \<Rightarrow>
          (if \<not> isArray clientTasks then (BadRequest, [])
           else
             (case query pg [] PgConnect of
                (Inl e, log) \<Rightarrow> (InternalError, log)
              | (Inr connected, log) \<Rightarrow>
                  (case syncTransaction D pg userId (arrayElements clientTasks) log of
                     (Inl e, log') \<Rightarrow> (InternalError, snd (query pg log' PgRollback))
                   | (Inr r, log') \<Rightarrow> (r, log')))))"

section \<open>Notions used in the statements\<close>

text \<open>
  A task object: an object whose \<^verbatim>\<open>id\<close> is a primitive (a string for every task the
  program makes or the server returns).
\<close>

definition isTask :: "jsval \<Rightarrow> bool" where
  "isTask t = (isObject t \<and> isPrimitive (taskId t))"

text \<open>The last-seen entry of a list with a given id.\<close>

definition lastWithId :: "jsval \<Rightarrow> jsval list \<Rightarrow> jsval option" where
  "lastWithId k ts = find (\<lambda>t. taskId t = k) (rev ts)"

text \<open>The server's version of a client task: the last-seen server entry with its id.\<close>

definition serverVersion :: "jsval list \<Rightarrow> jsval \<Rightarrow> jsval" where
  "serverVersion S c = (case lastWithId (taskId c) S of None \<Rightarrow> JUndefined | Some s \<Rightarrow> s)"



fun isUpdateCall :: "apiCall \<Rightarrow> bool" where
  "isUpdateCall (ApiUpdateTask k t) = True"
| "isUpdateCall c = False"

text \<open>
  The invariant of a \<^verbatim>\<open>Map\<close> from ids to task objects: no key twice, and every entry is
  a task object stored under its own id.
\<close>

definition okMap :: "jsmap \<Rightarrow> bool" where
  "okMap m = (distinct (map fst m) \<and> list_all (\<lambda>p. isTask (snd p) \<and> taskId (snd p) = fst p) m)"

subsection \<open>Concrete inputs for the examples\<close>

text \<open>
  The values of \<^verbatim>\<open>new Date(v)\<close> at the arguments the examples use: the two ISO dates of
  the specification's scenarios (midnight UTC), a number (its own time value),
  \<^verbatim>\<open>null\<close> (the epoch) and \<^verbatim>\<open>undefined\<close> (Invalid Date). Any other string of the
  examples is not a date.
\<close>

definition exampleDate :: dateCtor where
  "exampleDate v =
     (case v of
        JStr s \<Rightarrow> (if s = ''2024-01-01'' then Some 1704067200000
                  else if s = ''2024-01-02'' then Some 1704153600000
                  else None)
      | JNum n \<Rightarrow> Some n
      | JNull \<Rightarrow> Some 0
      | _ \<Rightarrow> None)"

definition mkTask :: "string \<Rightarrow> string \<Rightarrow> string \<Rightarrow> jsval" where
  "mkTask i t u = JObj [(''id'', JStr i), (''title'', JStr t), (''updatedAt'', JStr u)]"

text \<open>The state the two constructors leave, with an empty browser storage.\<close>

definition newStorageManager :: storageManager where
  "newStorageManager = \<lparr>useIndexedDB = False, db = False, localStorageItem = None,
     localStorageAccepts = (\<lambda>d. True), objectStore = [], getAllFails = False\<rparr>"

definition newTaskManager :: taskManager where
  "newTaskManager = \<lparr>tasks = [], storageManager = newStorageManager, lastSyncTime = JNull,
     apiRequests = [], emitted = [], eventListeners = []\<rparr>"

subsection \<open>Notions for the store and the manager\<close>

text \<open>A value that JSON represents as it is: no \<^verbatim>\<open>undefined\<close> anywhere in it.\<close>

fun isJson :: "jsval \<Rightarrow> bool" where
  "isJson JUndefined = False"
| "isJson (JArr xs) = list_all isJson xs"
| "isJson (JObj ps) = list_all (\<lambda>p. isJson (snd p)) ps"
| "isJson v = True"

text \<open>
  A persisted state of the \<^verbatim>\<open>localStorage\<close> backend with nothing to read: no item, a
  text that is not JSON, or a JSON value without an array under \<^verbatim>\<open>tasks\<close>.
\<close>

definition nothingReadable :: "storageManager \<Rightarrow> bool" where
  "nothingReadable st =
     (case localStorageItem st of
        None \<Rightarrow> True
      | Some NotJSON \<Rightarrow> True
      | Some (JSONText parsed) \<Rightarrow> \<not> isArray (propOf parsed ''tasks''))"

text \<open>The invariant of C9: the title is a string and not the empty one.\<close>

fun nonEmptyString :: "jsval \<Rightarrow> bool" where
  "nonEmptyString (JStr s) = (s \<noteq> [])"
| "nonEmptyString v = False"

definition titlesOk :: "jsval list \<Rightarrow> bool" where
  "titlesOk ts = list_all (\<lambda>t. nonEmptyString (taskTitle t)) ts"



text \<open>The outcomes of the store that the examples use.\<close>

definition fullStorageManager :: storageManager where
  "fullStorageManager = newStorageManager\<lparr>localStorageAccepts := (\<lambda>d. False)\<rparr>"

definition indexedStorageManager :: storageManager where
  "indexedStorageManager = newStorageManager\<lparr>useIndexedDB := True, db := True\<rparr>"

definition exampleEnv :: createEnv where
  "exampleEnv = \<lparr>newId = ''task_k3x9_1704067200000'', createdNow = ''2024-01-01T00:00:00.000Z'',
     updatedNow = ''2024-01-01T00:00:00.000Z'', savedNow = ''2024-01-01T00:00:00.001Z''\<rparr>"

definition brokenStorageManager :: storageManager where
  "brokenStorageManager = indexedStorageManager\<lparr>getAllFails := True\<rparr>"

definition staleStorageManager :: storageManager where
  "staleStorageManager = newStorageManager\<lparr>localStorageItem :=
     Some (JSONText (JObj [(''version'', JStr ''1.0''),
       (''tasks'', JArr [JObj [(''id'', JStr ''a'')],
                        JObj [(''id'', JStr ''b''), (''title'', JStr ''B''),
                              (''createdAt'', JStr ''2024-01-01''),
                              (''updatedAt'', JStr ''2024-01-01'')]])]))\<rparr>"

text \<open>Two valid tasks, stored in this order.\<close>

definition twoTasks :: "jsval list" where
  "twoTasks =
     [JObj [(''id'', JStr ''b''), (''title'', JStr ''Buy milk''), (''dueDate'', JNull),
            (''createdAt'', JStr ''2024-01-01''), (''updatedAt'', JStr ''2024-01-02'')],
      JObj [(''id'', JStr ''a''), (''title'', JStr ''Call Ann''), (''dueDate'', JNull),
            (''createdAt'', JStr ''2024-01-01''), (''updatedAt'', JStr ''2024-01-01'')]]"

text \<open>
  Two persisted states of the \<^verbatim>\<open>localStorage\<close> backend: the document of the two valid
  tasks, and a document with one task whose title is the empty string.
\<close>

definition savedStorageManager :: storageManager where
  "savedStorageManager = newStorageManager\<lparr>localStorageItem :=
     Some (JSONText (storedDocument ''2024-01-03'' twoTasks))\<rparr>"

definition blankTitleStorage :: storageManager where
  "blankTitleStorage = newStorageManager\<lparr>localStorageItem :=
     Some (JSONText (storedDocument ''2024-01-01T00:00:00.000Z''
       [mkTask ''a'' [] ''2024-01-01'']))\<rparr>"




text \<open>
  An entry with the four required fields: an object in which \<^verbatim>\<open>id\<close>, \<^verbatim>\<open>title\<close>,
  \<^verbatim>\<open>createdAt\<close> and \<^verbatim>\<open>updatedAt\<close> are all present with a value that counts as true.
\<close>

definition hasRequiredFields :: "jsval \<Rightarrow> bool" where
  "hasRequiredFields t =
     (isObject t \<and> list_all (\<lambda>k. truthy (propOf t k)) [''id'', ''title'', ''createdAt'', ''updatedAt''])"

text \<open>A quota that is exceeded by every document.\<close>

fun acceptsNothing :: "jsval \<Rightarrow> bool" where
  "acceptsNothing d = False"

subsection \<open>Notions for POST /sync\<close>

text \<open>
  A row that an \<^verbatim>\<open>INSERT\<close> or an \<^verbatim>\<open>UPDATE\<close> returns carries the id that the call was
  given as its first parameter.
\<close>

fun ownIdAnswer :: "pgCall \<times> answer \<Rightarrow> bool" where
  "ownIdAnswer (PgInsertTask (Val k # ps), Inr (r # rs)) = (lookupProp r ''id'' = k)"
| "ownIdAnswer (PgUpdateTask (Val k # ps), Inr (r # rs)) = (lookupProp r ''id'' = k)"
| "ownIdAnswer ca = True"

definition returnsOwnIds :: "pgLog \<Rightarrow> bool" where
  "returnsOwnIds log = list_all ownIdAnswer log"

text \<open>Every \<^verbatim>\<open>INSERT\<close> of the request returned a row: no id was in the table already.\<close>

fun createdAnswer :: "pgCall \<times> answer \<Rightarrow> bool" where
  "createdAnswer (PgInsertTask ps, Inr []) = False"
| "createdAnswer ca = True"

definition everyInsertCreates :: "pgLog \<Rightarrow> bool" where
  "everyInsertCreates log = list_all createdAnswer log"



text \<open>The tasks of a response with status 200.\<close>

fun responseTasks :: "response \<Rightarrow> jsval list" where
  "responseTasks (SyncOk ts stats) = ts"
| "responseTasks r = []"

fun isSyncOk :: "response \<Rightarrow> bool" where
  "isSyncOk (SyncOk ts stats) = True"
| "isSyncOk r = False"

fun responseStats :: "response \<Rightarrow> syncStats" where
  "responseStats (SyncOk ts stats) = stats"
| "responseStats r = \<lparr>total = 0, created = 0, updated = 0, serverOnly = 0\<rparr>"

subsection \<open>Databases for the examples\<close>

text \<open>
  Two databases that answer every call and hold the given rows for the user. The first
  returns for an \<^verbatim>\<open>INSERT\<close> and for an \<^verbatim>\<open>UPDATE\<close> the row of the values it was given,
  a date as the number of its time value. The second has every id it is asked to insert
  in its table already, under another user, and returns no row for an \<^verbatim>\<open>INSERT\<close>.
\<close>

fun paramValue :: "sqlParam \<Rightarrow> jsval" where
  "paramValue (Val v) = v"
| "paramValue (DateParam (Some t)) = JNum t"
| "paramValue (DateParam None) = JNull"

definition insertedRow :: "sqlParam list \<Rightarrow> row" where
  "insertedRow ps =
     zip [''id'', ''user_id'', ''title'', ''description'', ''category'', ''priority'', ''status'',
          ''due_date'', ''created_at'', ''updated_at''] (map paramValue ps)"

definition updatedRow :: "sqlParam list \<Rightarrow> row" where
  "updatedRow ps =
     zip [''id'', ''user_id'', ''title'', ''description'', ''category'', ''priority'', ''status'',
          ''due_date'', ''updated_at''] (map paramValue ps)"

fun echoPg :: "row list \<Rightarrow> pg" where
  "echoPg rows log (PgSelectTasks u) = Inr rows"
| "echoPg rows log (PgInsertTask ps) = Inr [insertedRow ps]"
| "echoPg rows log (PgUpdateTask ps) = Inr [updatedRow ps]"
| "echoPg rows log c = Inr []"

fun conflictPg :: "row list \<Rightarrow> pg" where
  "conflictPg rows log (PgSelectTasks u) = Inr rows"
| "conflictPg rows log (PgUpdateTask ps) = Inr [updatedRow ps]"
| "conflictPg rows log c = Inr []"

text \<open>A row of the table, for the user \<^verbatim>\<open>u1\<close>.\<close>

definition mkRow :: "string \<Rightarrow> string \<Rightarrow> string \<Rightarrow> row" where
  "mkRow i t u =
     [(''id'', JStr i), (''user_id'', JStr ''u1''), (''title'', JStr t), (''description'', JNull),
      (''category'', JNull), (''priority'', JStr ''Medium''), (''status'', JStr ''todo''),
      (''due_date'', JNull), (''created_at'', JStr u), (''updated_at'', JStr u)]"

definition syncBody :: "jsval list \<Rightarrow> jsval" where
  "syncBody ts = JObj [(''tasks'', JArr ts)]"

text \<open>
  A database that writes an id as PostgreSQL writes a value of the type \<^verbatim>\<open>uuid\<close>, with
  the letters in lower case: the row it returns for an \<^verbatim>\<open>INSERT\<close> has the id in that
  form.
\<close>

fun lowerCase :: "char \<Rightarrow> char" where
  "lowerCase c =
     (if c = CHR ''A'' then CHR ''a'' else if c = CHR ''B'' then CHR ''b''
      else if c = CHR ''C'' then CHR ''c'' else if c = CHR ''D'' then CHR ''d''
      else if c = CHR ''E'' then CHR ''e'' else if c = CHR ''F'' then CHR ''f'' else c)"

fun canonicalId :: "jsval \<Rightarrow> jsval" where
  "canonicalId (JStr s) = JStr (map lowerCase s)"
| "canonicalId v = v"

fun uuidPg :: "row list \<Rightarrow> pg" where
  "uuidPg rows log (PgSelectTasks u) = Inr rows"
| "uuidPg rows log (PgInsertTask ps) =
     Inr [(''id'', canonicalId (lookupProp (insertedRow ps) ''id'')) # tl (insertedRow ps)]"
| "uuidPg rows log (PgUpdateTask ps) = Inr [updatedRow ps]"
| "uuidPg rows log c = Inr []"

text \<open>The inputs of the examples: the tasks of a client and the rows of the server.\<close>

definition clientTasksAB :: "jsval list" where
  "clientTasksAB = [mkTask ''a'' ''X'' ''2024-01-02'', mkTask ''b'' ''B'' ''2024-01-01'']"

definition serverRowsAC :: "row list" where
  "serverRowsAC = [mkRow ''a'' ''Y'' ''2024-01-01'', mkRow ''c'' ''C'' ''2024-01-01'']"



section \<open>Lemmas on the \<^verbatim>\<open>Map\<close> and the merge loops\<close>

lemma isTask_getProp: "isTask t \<Longrightarrow> getProp t ''id'' = Inr (taskId t)"
  by (cases t) (simp_all add: isTask_def taskId_def)

lemma isTask_truthy: "isTask t \<Longrightarrow> truthy t"
  by (cases t) (simp_all add: isTask_def)

lemma okMap_Nil: "okMap []"
  by (simp add: okMap_def)

lemma okMap_prims: "okMap m \<Longrightarrow> list_all (\<lambda>p. isPrimitive (fst p)) m"
  by (auto simp: okMap_def list_all_iff isTask_def)

lemma mapSet_update: "list_all (\<lambda>p. isPrimitive (fst p)) m \<Longrightarrow> mapSet m k v = AList.update k v m"
  by (induction m) (auto simp: sameValueZero_def)

lemma mapGet_map_of:
  "list_all (\<lambda>p. isPrimitive (fst p)) m \<Longrightarrow>
   mapGet m k = (case map_of m k of None \<Rightarrow> JUndefined | Some v \<Rightarrow> v)"
  by (induction m) (auto simp: sameValueZero_def)

lemma mapHas_map_of:
  "list_all (\<lambda>p. isPrimitive (fst p)) m \<Longrightarrow> mapHas m k = (map_of m k \<noteq> None)"
  by (induction m) (auto simp: sameValueZero_def)

lemma set_update_subset: "set (AList.update k v al) \<subseteq> insert (k, v) (set al)"
  by (induction al) auto

lemma okMap_mapSet:
  assumes "okMap m" and "isTask t"
  shows "okMap (mapSet m (taskId t) t)"
proof -
  have eq: "mapSet m (taskId t) t = AList.update (taskId t) t m"
    using assms(1) by (simp add: mapSet_update okMap_prims)
  have "distinct (map fst (AList.update (taskId t) t m))"
    using assms(1) by (simp add: okMap_def distinct_update)
  moreover have "list_all (\<lambda>p. isTask (snd p) \<and> taskId (snd p) = fst p) (AList.update (taskId t) t m)"
    using assms set_update_subset [of "taskId t" t m]
    by (auto simp: okMap_def list_all_iff)
  ultimately show ?thesis
    by (simp add: eq okMap_def)
qed

lemma mapSet_keys:
  "okMap m \<Longrightarrow> fst ` set (mapSet m k v) = insert k (fst ` set m)"
  by (simp add: mapSet_update okMap_prims dom_update)

lemma okMap_mapGet_truthy: "okMap m \<Longrightarrow> truthy (mapGet m k) = (k \<in> fst ` set m)"
proof -
  assume ok: "okMap m"
  show ?thesis
  proof (cases "map_of m k")
    case None
    then have "k \<notin> fst ` set m" by (simp add: map_of_eq_None_iff)
    then show ?thesis
      using ok None by (simp add: mapGet_map_of okMap_prims)
  next
    case (Some v)
    then have "(k, v) \<in> set m" by (rule map_of_SomeD)
    then have "isTask v" and "k \<in> fst ` set m"
      using ok by (force simp: okMap_def list_all_iff)+
    then show ?thesis
      using ok Some by (simp add: mapGet_map_of okMap_prims isTask_truthy)
  qed
qed

lemma okMap_mapHas: "okMap m \<Longrightarrow> mapHas m k = (k \<in> fst ` set m)"
  by (simp add: mapHas_map_of okMap_prims map_of_eq_None_iff)

lemma okMap_values_ids: "okMap m \<Longrightarrow> map taskId (mapValues m) = map fst m"
  by (induction m) (auto simp: okMap_def mapValues_def)

lemma setAllById_ok:
  "okMap m \<Longrightarrow> list_all isTask ts \<Longrightarrow>
   \<exists>m'. setAllById m ts = Inr m' \<and> okMap m' \<and> fst ` set m' = fst ` set m \<union> taskId ` set ts"
proof (induction ts arbitrary: m)
  case Nil
  then show ?case by simp
next
  case (Cons t ts)
  then have t: "isTask t" and ts: "list_all isTask ts" by simp_all
  have ok': "okMap (mapSet m (taskId t) t)"
    using Cons.prems(1) t by (rule okMap_mapSet)
  from Cons.IH [OF ok' ts] obtain m' where
    "setAllById (mapSet m (taskId t) t) ts = Inr m'" "okMap m'"
    "fst ` set m' = fst ` set (mapSet m (taskId t) t) \<union> taskId ` set ts"
    by blast
  then show ?case
    using t Cons.prems(1) by (simp add: isTask_getProp mapSet_keys)
qed

lemma mergeServer_ok:
  "okMap m \<Longrightarrow> list_all isTask ts \<Longrightarrow>
   \<exists>m' calls'. mergeServer D m calls ts = (Inr m', calls') \<and> okMap m'
      \<and> fst ` set m' = fst ` set m \<union> taskId ` set ts"
proof (induction ts arbitrary: m calls)
  case Nil
  then show ?case by simp
next
  case (Cons t ts)
  then have t: "isTask t" and ts: "list_all isTask ts" by simp_all
  have ok': "okMap (mapSet m (taskId t) t)"
    using Cons.prems(1) t by (rule okMap_mapSet)
  let ?keep = "truthy (mapGet m (taskId t)) \<and>
     \<not> dateGe (D (propOf t ''updatedAt'')) (D (propOf (mapGet m (taskId t)) ''updatedAt''))"
  show ?case
  proof (cases ?keep)
    case True
    then have in_m: "taskId t \<in> fst ` set m"
      using Cons.prems(1) by (simp add: okMap_mapGet_truthy)
    from Cons.IH [OF Cons.prems(1) ts, of "calls @ [ApiUpdateTask (taskId t) (mapGet m (taskId t))]"]
    obtain m' calls' where
      "mergeServer D m (calls @ [ApiUpdateTask (taskId t) (mapGet m (taskId t))]) ts = (Inr m', calls')"
      "okMap m'" "fst ` set m' = fst ` set m \<union> taskId ` set ts"
      by blast
    then show ?thesis
      using True t in_m by (auto simp: isTask_getProp Let_def)
  next
    case False
    from Cons.IH [OF ok' ts, of calls]
    obtain m' calls' where
      "mergeServer D (mapSet m (taskId t) t) calls ts = (Inr m', calls')"
      "okMap m'" "fst ` set m' = fst ` set (mapSet m (taskId t) t) \<union> taskId ` set ts"
      by blast
    then show ?thesis
      using False t Cons.prems(1) by (auto simp: isTask_getProp Let_def mapSet_keys)
  qed
qed

lemma find_app:
  "find P (xs @ ys) = (case find P xs of None \<Rightarrow> find P ys | Some x \<Rightarrow> Some x)"
  by (induction xs) auto

lemma okMap_map_of: "okMap m \<Longrightarrow> (map_of m k = Some v) = ((k, v) \<in> set m)"
  by (simp add: okMap_def)

lemma map_of_mapSet: "okMap m \<Longrightarrow> map_of (mapSet m k v) = (map_of m)(k \<mapsto> v)"
  by (simp add: mapSet_update okMap_prims update_conv')

lemma setAllById_map_of:
  "okMap m \<Longrightarrow> list_all isTask ts \<Longrightarrow> setAllById m ts = Inr m' \<Longrightarrow>
   map_of m' k = (case lastWithId k ts of None \<Rightarrow> map_of m k | Some t \<Rightarrow> Some t)"
proof (induction ts arbitrary: m)
  case Nil
  then show ?case by (simp add: lastWithId_def)
next
  case (Cons t ts)
  then have t: "isTask t" and ts: "list_all isTask ts" by simp_all
  have ok': "okMap (mapSet m (taskId t) t)"
    using Cons.prems(1) t by (rule okMap_mapSet)
  have run: "setAllById (mapSet m (taskId t) t) ts = Inr m'"
    using Cons.prems(3) t by (simp add: isTask_getProp)
  have "map_of m' k =
      (case lastWithId k ts of None \<Rightarrow> map_of (mapSet m (taskId t) t) k | Some t \<Rightarrow> Some t)"
    by (rule Cons.IH [OF ok' ts run])
  then show ?case
    using Cons.prems(1)
    by (auto simp: lastWithId_def find_app map_of_mapSet split: option.splits)
qed

lemma mergeServer_frame:
  "okMap m \<Longrightarrow> list_all isTask ts \<Longrightarrow> mergeServer D m calls ts = (r, calls') \<Longrightarrow>
   \<exists>m' new. r = Inr m' \<and> calls' = calls @ new
     \<and> snd ` set m' \<subseteq> snd ` set m \<union> set ts
     \<and> (\<forall>k. k \<notin> taskId ` set ts \<longrightarrow> map_of m' k = map_of m k)
     \<and> (\<forall>c \<in> set new. \<exists>k l. c = ApiUpdateTask k l \<and> k \<in> taskId ` set ts)"
proof (induction ts arbitrary: m calls)
  case Nil
  then show ?case by auto
next
  case (Cons t ts)
  then have t: "isTask t" and ts: "list_all isTask ts" by simp_all
  have ok': "okMap (mapSet m (taskId t) t)"
    using Cons.prems(1) t by (rule okMap_mapSet)
  let ?l = "mapGet m (taskId t)"
  let ?keep = "truthy ?l \<and> \<not> dateGe (D (propOf t ''updatedAt'')) (D (propOf ?l ''updatedAt''))"
  show ?case
  proof (cases ?keep)
    case True
    have run: "mergeServer D m (calls @ [ApiUpdateTask (taskId t) ?l]) ts = (r, calls')"
      using Cons.prems(3) True t by (simp add: isTask_getProp Let_def)
    from Cons.IH [OF Cons.prems(1) ts run] obtain m' new where *:
      "r = Inr m'" "calls' = (calls @ [ApiUpdateTask (taskId t) ?l]) @ new"
      "snd ` set m' \<subseteq> snd ` set m \<union> set ts"
      "\<forall>k. k \<notin> taskId ` set ts \<longrightarrow> map_of m' k = map_of m k"
      "\<forall>c \<in> set new. \<exists>k l. c = ApiUpdateTask k l \<and> k \<in> taskId ` set ts"
      by blast
    have "calls' = calls @ (ApiUpdateTask (taskId t) ?l # new)"
      using *(2) by simp
    moreover have "snd ` set m' \<subseteq> snd ` set m \<union> set (t # ts)"
      using *(3) by auto
    moreover have "\<forall>k. k \<notin> taskId ` set (t # ts) \<longrightarrow> map_of m' k = map_of m k"
      using *(4) by simp
    moreover have "\<forall>c \<in> set (ApiUpdateTask (taskId t) ?l # new).
        \<exists>k l. c = ApiUpdateTask k l \<and> k \<in> taskId ` set (t # ts)"
      using *(5) by auto
    ultimately show ?thesis
      using *(1) by blast
  next
    case False
    have run: "mergeServer D (mapSet m (taskId t) t) calls ts = (r, calls')"
      using Cons.prems(3) False t by (auto simp: isTask_getProp Let_def split: if_splits)
    from Cons.IH [OF ok' ts run] obtain m' new where *:
      "r = Inr m'" "calls' = calls @ new"
      "snd ` set m' \<subseteq> snd ` set (mapSet m (taskId t) t) \<union> set ts"
      "\<forall>k. k \<notin> taskId ` set ts \<longrightarrow> map_of m' k = map_of (mapSet m (taskId t) t) k"
      "\<forall>c \<in> set new. \<exists>k l. c = ApiUpdateTask k l \<and> k \<in> taskId ` set ts"
      by blast
    have sub: "snd ` set (mapSet m (taskId t) t) \<subseteq> insert t (snd ` set m)"
      using set_update_subset [of "taskId t" t m] Cons.prems(1)
      by (auto simp: mapSet_update okMap_prims)
    have "snd ` set m' \<subseteq> snd ` set m \<union> set (t # ts)"
      using *(3) sub by auto
    moreover have "\<forall>k. k \<notin> taskId ` set (t # ts) \<longrightarrow> map_of m' k = map_of m k"
      using *(4) Cons.prems(1) by (simp add: map_of_mapSet)
    moreover have "\<forall>c \<in> set new. \<exists>k l. c = ApiUpdateTask k l \<and> k \<in> taskId ` set (t # ts)"
      using *(5) by auto
    ultimately show ?thesis
      using *(1,2) by blast
  qed
qed

lemma syncServerLoop_closed:
  "list_all isTask ss \<Longrightarrow>
   syncServerLoop cmap merged ss = Inr (merged @ filter (\<lambda>s. \<not> mapHas cmap (taskId s)) ss)"
  by (induction ss arbitrary: merged) (simp_all add: isTask_getProp)

lemma syncClientLoop_closed:
  "list_all isTask cs \<Longrightarrow>
   syncClientLoop D smap (merged, toCreate, toUpdate) cs =
     Inr (merged @ map (\<lambda>c. if dateGt (D (propOf c ''updatedAt''))
                                   (D (propOf (mapGet smap (taskId c)) ''updatedAt''))
                           then c else mapGet smap (taskId c))
                    (filter (\<lambda>c. truthy (mapGet smap (taskId c))) cs),
          toCreate @ filter (\<lambda>c. \<not> truthy (mapGet smap (taskId c))) cs,
          toUpdate @ filter (\<lambda>c. truthy (mapGet smap (taskId c)) \<and>
                              dateGt (D (propOf c ''updatedAt''))
                                (D (propOf (mapGet smap (taskId c)) ''updatedAt''))) cs)"
proof (induction cs arbitrary: merged toCreate toUpdate)
  case Nil
  then show ?case by simp
next
  case (Cons c cs)
  then have c: "getProp c ''id'' = Inr (taskId c)" and cs: "list_all isTask cs"
    by (simp_all add: isTask_getProp)
  show ?case
  proof (cases "truthy (mapGet smap (taskId c))")
    case False
    then show ?thesis
      using c Cons.IH [OF cs] by simp
  next
    case True
    then show ?thesis
      using c Cons.IH [OF cs]
      by (cases "dateGt (D (propOf c ''updatedAt''))
                   (D (propOf (mapGet smap (taskId c)) ''updatedAt''))") simp_all
  qed
qed

lemma setAllById_empty:
  assumes "list_all isTask ts"
  shows "\<exists>m. setAllById [] ts = Inr m \<and> okMap m \<and> fst ` set m = taskId ` set ts
    \<and> (\<forall>k. map_of m k = lastWithId k ts)"
proof -
  from setAllById_ok [OF okMap_Nil assms] obtain m where
    m: "setAllById [] ts = Inr m" "okMap m" "fst ` set m = taskId ` set ts"
    by auto
  have "map_of m k = lastWithId k ts" for k
    using setAllById_map_of [OF okMap_Nil assms m(1), of k] by (simp split: option.splits)
  with m show ?thesis by blast
qed

lemma find_SomeD: "find P xs = Some x \<Longrightarrow> x \<in> set xs \<and> P x"
  by (induction xs) (auto split: if_splits)

lemma lastWithId_Some: "lastWithId k ts = Some t \<Longrightarrow> t \<in> set ts \<and> taskId t = k"
  unfolding lastWithId_def using find_SomeD [of "\<lambda>t. taskId t = k" "rev ts" t] by simp

lemma lastWithId_None: "(lastWithId k ts = None) = (k \<notin> taskId ` set ts)"
  by (auto simp: lastWithId_def find_None_iff)

lemma serverVersion_in:
  "taskId c \<in> taskId ` set S \<Longrightarrow> serverVersion S c \<in> set S \<and> taskId (serverVersion S c) = taskId c"
proof -
  assume "taskId c \<in> taskId ` set S"
  then obtain s where "lastWithId (taskId c) S = Some s"
    using lastWithId_None [of "taskId c" S] by auto
  then show ?thesis
    using lastWithId_Some [of "taskId c" S s] by (simp add: serverVersion_def)
qed

lemma syncMerge_closed:
  assumes C: "list_all isTask C" and S: "list_all isTask S"
  shows "syncMerge D C S = Inr
    (map (\<lambda>c. if dateGt (D (propOf c ''updatedAt'')) (D (propOf (serverVersion S c) ''updatedAt''))
              then c else serverVersion S c)
         (filter (\<lambda>c. taskId c \<in> taskId ` set S) C)
       @ filter (\<lambda>s. taskId s \<notin> taskId ` set C) S,
     filter (\<lambda>c. taskId c \<notin> taskId ` set S) C,
     filter (\<lambda>c. taskId c \<in> taskId ` set S \<and>
          dateGt (D (propOf c ''updatedAt'')) (D (propOf (serverVersion S c) ''updatedAt''))) C)"
proof -
  from setAllById_empty [OF S] obtain smap where smap:
    "setAllById [] S = Inr smap" "okMap smap" "fst ` set smap = taskId ` set S"
    "\<forall>k. map_of smap k = lastWithId k S"
    by blast
  from setAllById_empty [OF C] obtain cmap where cmap:
    "setAllById [] C = Inr cmap" "okMap cmap" "fst ` set cmap = taskId ` set C"
    by blast
  have get: "mapGet smap (taskId c) = serverVersion S c" for c
    using smap(2,4) by (simp add: mapGet_map_of okMap_prims serverVersion_def)
  have tr: "truthy (mapGet smap (taskId c)) = (taskId c \<in> taskId ` set S)" for c
    using smap(2,3) by (simp add: okMap_mapGet_truthy)
  have has: "mapHas cmap (taskId s) = (taskId s \<in> taskId ` set C)" for s
    using cmap(2,3) by (simp add: okMap_mapHas)
  have "syncMerge D C S = Inr
    (map (\<lambda>c. if dateGt (D (propOf c ''updatedAt'')) (D (propOf (mapGet smap (taskId c)) ''updatedAt''))
              then c else mapGet smap (taskId c))
         (filter (\<lambda>c. truthy (mapGet smap (taskId c))) C)
       @ filter (\<lambda>s. \<not> mapHas cmap (taskId s)) S,
     filter (\<lambda>c. \<not> truthy (mapGet smap (taskId c))) C,
     filter (\<lambda>c. truthy (mapGet smap (taskId c)) \<and>
          dateGt (D (propOf c ''updatedAt'')) (D (propOf (mapGet smap (taskId c)) ''updatedAt''))) C)"
    unfolding syncMerge_def
    by (simp only: smap(1) cmap(1) syncClientLoop_closed [OF C] syncServerLoop_closed [OF S]
        sum.case prod.case append_Nil)
  then show ?thesis
    unfolding tr has unfolding get .
qed

lemma mergeTasks_run:
  assumes L: "list_all isTask L" and S: "list_all isTask S"
  shows "\<exists>m m' new. setAllById [] L = Inr m \<and> okMap m \<and> fst ` set m = taskId ` set L
      \<and> (\<forall>k. map_of m k = lastWithId k L)
      \<and> mergeServer D m [] S = (Inr m', new) \<and> okMap m'
      \<and> fst ` set m' = taskId ` set L \<union> taskId ` set S
      \<and> mergeTasks D tm L S = (Inr (mapValues m'), tm\<lparr>apiRequests := apiRequests tm @ new\<rparr>)"
proof -
  from setAllById_empty [OF L] obtain m where m:
    "setAllById [] L = Inr m" "okMap m" "fst ` set m = taskId ` set L"
    "\<forall>k. map_of m k = lastWithId k L"
    by blast
  from mergeServer_ok [OF m(2) S, of D "[]"] obtain m' new where m':
    "mergeServer D m [] S = (Inr m', new)" "okMap m'"
    "fst ` set m' = fst ` set m \<union> taskId ` set S"
    by blast
  have "mergeTasks D tm L S = (Inr (mapValues m'), tm\<lparr>apiRequests := apiRequests tm @ new\<rparr>)"
    by (simp add: mergeTasks_def m(1) m'(1))
  with m m' show ?thesis by auto
qed


lemma okMap_values_member: "okMap m \<Longrightarrow> (v \<in> set (mapValues m)) = (map_of m (taskId v) = Some v)"
  by (auto simp: okMap_map_of mapValues_def okMap_def list_all_iff intro: rev_image_eqI)

lemma ids_split: "f ` {x \<in> A. f x \<in> f ` B} \<union> f ` {x \<in> B. f x \<notin> f ` A} = f ` B"
proof (intro equalityI subsetI)
  fix y
  assume "y \<in> f ` {x \<in> A. f x \<in> f ` B} \<union> f ` {x \<in> B. f x \<notin> f ` A}"
  then show "y \<in> f ` B" by auto
next
  fix y
  assume "y \<in> f ` B"
  then obtain b where b: "b \<in> B" "y = f b" by auto
  show "y \<in> f ` {x \<in> A. f x \<in> f ` B} \<union> f ` {x \<in> B. f x \<notin> f ` A}"
  proof (cases "f b \<in> f ` A")
    case True
    then obtain a where "a \<in> A" "f a = f b" by auto
    then have "a \<in> {x \<in> A. f x \<in> f ` B}" using b by auto
    then have "f a \<in> f ` {x \<in> A. f x \<in> f ` B}" by (rule imageI)
    then show ?thesis using \<open>f a = f b\<close> b by simp
  next
    case False
    then have "b \<in> {x \<in> B. f x \<notin> f ` A}" using b by simp
    then have "f b \<in> f ` {x \<in> B. f x \<notin> f ` A}" by (rule imageI)
    then show ?thesis using b by simp
  qed
qed

lemma ids_diff: "f ` {x \<in> A. f x \<notin> f ` B} = f ` A - f ` B"
  unfolding image_def by auto

lemma ids_disj1: "f ` {x \<in> A. f x \<in> f ` B} \<inter> f ` {x \<in> B. f x \<notin> f ` A} = {}"
  unfolding image_def by auto

lemma exampleDate_simps [simp]:
  "exampleDate (JStr ''2024-01-01'') = Some 1704067200000"
  "exampleDate (JStr ''2024-01-02'') = Some 1704153600000"
  "exampleDate JUndefined = None"
  by (simp_all add: exampleDate_def)



lemma mergeServer_calls:
  "mergeServer D m calls ts = (r, calls') \<Longrightarrow> \<exists>new. calls' = calls @ new \<and> list_all isUpdateCall new"
proof (induction ts arbitrary: m calls)
  case Nil
  then show ?case by simp
next
  case (Cons t ts)
  show ?case
  proof (cases "getProp t ''id''")
    case (Inl e)
    then show ?thesis using Cons.prems by simp
  next
    case (Inr k)
    let ?l = "mapGet m k"
    show ?thesis
    proof (cases "truthy ?l \<and> \<not> dateGe (D (propOf t ''updatedAt'')) (D (propOf ?l ''updatedAt''))")
      case True
      then have "mergeServer D m (calls @ [ApiUpdateTask k ?l]) ts = (r, calls')"
        using Cons.prems Inr by (simp add: Let_def)
      from Cons.IH [OF this] obtain new where
        "calls' = (calls @ [ApiUpdateTask k ?l]) @ new" "list_all isUpdateCall new"
        by blast
      then have "calls' = calls @ (ApiUpdateTask k ?l # new) \<and> list_all isUpdateCall (ApiUpdateTask k ?l # new)"
        by simp
      then show ?thesis by blast
    next
      case False
      then have "mergeServer D (mapSet m k t) calls ts = (r, calls')"
        using Cons.prems Inr by (auto simp: Let_def split: if_splits)
      from Cons.IH [OF this] show ?thesis .
    qed
  qed
qed


lemma mergeTasks_shape:
  "\<exists>r calls. list_all isUpdateCall calls \<and>
     (\<forall>tm. mergeTasks D tm L S = (r, tm\<lparr>apiRequests := apiRequests tm @ calls\<rparr>))"
proof (cases "setAllById [] L")
  case (Inl e)
  then have "\<forall>tm. mergeTasks D tm L S = (Inl e, tm\<lparr>apiRequests := apiRequests tm @ []\<rparr>)"
    by (simp add: mergeTasks_def)
  moreover have "list_all isUpdateCall []" by simp
  ultimately show ?thesis by blast
next
  case (Inr m)
  obtain r calls where run: "mergeServer D m [] S = (r, calls)"
    by (cases "mergeServer D m [] S")
  from mergeServer_calls [OF run] have calls: "list_all isUpdateCall calls"
    by simp
  have "\<forall>tm. mergeTasks D tm L S
      = (map_sum id mapValues r, tm\<lparr>apiRequests := apiRequests tm @ calls\<rparr>)"
    using Inr run by (cases r) (simp_all add: mergeTasks_def)
  with calls show ?thesis by blast
qed

section \<open>Lemmas on the store\<close>

lemma jsonValue_isJson: "isJson v \<Longrightarrow> jsonValue v = v"
proof (induction v rule: jsonValue.induct)
  case 1
  then show ?case by simp
next
  case (2 xs)
  then have "map jsonValue xs = xs"
    by (simp add: list_all_iff map_idI)
  then show ?case by simp
next
  case (3 ps)
  then have all: "\<forall>p \<in> set ps. isJson (snd p)"
    by (simp add: list_all_iff)
  then have "filter (\<lambda>p. snd p \<noteq> JUndefined) ps = ps"
    by (auto simp: filter_id_conv)
  moreover have "map (\<lambda>p. (fst p, jsonValue (snd p))) ps = ps"
    using 3 all by (intro map_idI) (simp add: \<open>filter (\<lambda>p. snd p \<noteq> JUndefined) ps = ps\<close>)
  ultimately show ?case by simp
qed simp_all

lemma jsonValue_document:
  "list_all isJson ts \<Longrightarrow> jsonValue (storedDocument now ts) = storedDocument now ts"
  by (rule jsonValue_isJson) (simp add: storedDocument_def)

lemma mset_addRecord: "mset (addRecord t rs) = add_mset t (mset rs)"
  by (induction rs) simp_all

lemma mset_addRecords: "mset (addRecords rs ts) = mset rs + mset ts"
  by (induction ts arbitrary: rs) (simp_all add: mset_addRecord)

lemma takeWhile_all: "list_all P xs \<Longrightarrow> takeWhile P xs = xs"
  by (induction xs) simp_all

lemma load_after_save_localStorage:
  assumes "\<not> useIndexedDB st" and "list_all isJson ts"
    and "localStorageAccepts st (jsonValue (storedDocument now ts))"
  shows "saveTasks now ts st
           = (Inr (), st\<lparr>localStorageItem := Some (JSONText (storedDocument now ts))\<rparr>)"
    and "loadTasks (snd (saveTasks now ts st)) = Inr ts"
  using assms
  by (simp_all add: saveTasks_def saveTasksLocalStorage_def loadTasks_def loadTasksLocalStorage_def
      jsonValue_document Let_def) (simp_all add: storedDocument_def)

lemma load_after_save_indexedDB:
  assumes "useIndexedDB st" and "db st" and "\<not> getAllFails st"
    and "list_all (\<lambda>t. validKey (taskId t)) ts" and "distinct (map taskId ts)"
  shows "saveTasks now ts st = (Inr (), st\<lparr>objectStore := addRecords [] ts\<rparr>)"
    and "loadTasks (snd (saveTasks now ts st)) = Inr (addRecords [] ts)"
  using assms
  by (simp_all add: saveTasks_def saveTasksIndexedDB_def loadTasks_def loadTasksIndexedDB_def
      takeWhile_all Let_def)

lemma twoTasks_valid:
  "list_all isJson twoTasks" "list_all (\<lambda>t. validKey (taskId t)) twoTasks"
  "distinct (map taskId twoTasks)"
  by (simp_all add: twoTasks_def taskId_def)

lemma validEntry_hasRequiredFields: "validEntry t = hasRequiredFields t"
  by (cases t) (auto simp: validEntry_def hasRequiredFields_def)

lemma filter_shorter: "(length (filter P xs) \<noteq> length xs) = (\<not> list_all P xs)"
proof (induction xs)
  case Nil
  then show ?case by simp
next
  case (Cons x xs)
  show ?case
  proof (cases "P x")
    case True
    then show ?thesis using Cons by simp
  next
    case False
    have "length (filter P xs) \<le> length xs" by simp
    then have "length (filter P xs) \<noteq> Suc (length xs)" by arith
    then show ?thesis using False by simp
  qed
qed

lemma cleanup_run:
  assumes "loadTasks st = Inr entries"
  shows "cleanup now st =
    (if list_all hasRequiredFields entries then (Inr entries, st)
     else (case fst (saveTasks now (filter hasRequiredFields entries) st) of
             Inl e \<Rightarrow> Inl e
           | Inr u \<Rightarrow> Inr (filter hasRequiredFields entries),
           snd (saveTasks now (filter hasRequiredFields entries) st)))"
proof -
  have v: "validEntry = hasRequiredFields"
    by (rule ext) (rule validEntry_hasRequiredFields)
  show ?thesis
  proof (cases "list_all hasRequiredFields entries")
    case True
    then have "filter hasRequiredFields entries = entries"
      by (simp add: list_all_iff filter_id_conv)
    then show ?thesis
      using True assms by (simp add: cleanup_def v Let_def)
  next
    case False
    then show ?thesis
      using assms
      by (simp add: cleanup_def v Let_def filter_shorter split: prod.splits sum.splits)
  qed
qed

section \<open>Lemmas on the task manager\<close>




lemma trimsToEmpty_False: "trimsToEmpty v = Inr False \<Longrightarrow> nonEmptyString v"
  by (cases v) (auto simp: trim_def)


lemma newTask_title [simp]:
  "propOf (newTask env taskData) ''title'' = orElse (propOf taskData ''title'') (JStr [])"
  by (simp add: newTask_def)

lemma emit_result:
  "emit event d tm = (r, tm') \<Longrightarrow> tm' = tm\<lparr>emitted := emitted tm @ [(event, d)]\<rparr>"
  by (simp add: emit_def)

lemma titlesOk_append: "titlesOk (xs @ [t]) = (titlesOk xs \<and> nonEmptyString (taskTitle t))"
  by (simp add: titlesOk_def)

lemma titlesOk_update:
  "titlesOk xs \<Longrightarrow> nonEmptyString (taskTitle t) \<Longrightarrow> titlesOk (xs[i := t])"
  unfolding titlesOk_def list_all_iff using set_update_subset_insert [of xs i t] by auto

lemma createTask_tasks:
  "tasks (snd (createTask env taskData tm)) = tasks tm
   \<or> (tasks (snd (createTask env taskData tm)) = tasks tm @ [newTask env taskData]
      \<and> nonEmptyString (taskTitle (newTask env taskData)))"
proof (cases "getProp taskData ''title''")
  case (Inl e)
  then show ?thesis by (simp add: createTask_def)
next
  case (Inr t)
  show ?thesis
  proof (cases "trimsToEmpty (propOf (newTask env taskData) ''title'')")
    case (Inl e)
    then show ?thesis using Inr by (simp add: createTask_def Let_def del: newTask_title)
  next
    case r: (Inr b)
    show ?thesis
    proof (cases b)
      case True
      then show ?thesis using Inr r by (simp add: createTask_def Let_def del: newTask_title)
    next
      case False
      then have "nonEmptyString (taskTitle (newTask env taskData))"
        using r trimsToEmpty_False by (simp add: taskTitle_def del: newTask_title)
      then show ?thesis
        using Inr r False
        by (auto simp: createTask_def Let_def split: prod.splits sum.splits dest!: emit_result
            simp del: newTask_title)
    qed
  qed
qed

lemma updateTask_tasks:
  "tasks (snd (updateTask now saved tid updates tm)) = tasks tm
   \<or> (\<exists>i t. tasks (snd (updateTask now saved tid updates tm)) = (tasks tm)[i := t]
          \<and> nonEmptyString (taskTitle t))"
proof (cases "findIndexById tid (tasks tm)")
  case (Inl e)
  then show ?thesis by (simp add: updateTask_def)
next
  case (Inr r)
  show ?thesis
  proof (cases r)
    case None
    then show ?thesis using Inr by (simp add: updateTask_def)
  next
    case (Some i)
    let ?t = "updatedTaskOf now (tasks tm ! i) updates"
    show ?thesis
    proof (cases "trimsToEmpty (propOf ?t ''title'')")
      case (Inl e)
      then show ?thesis using Inr Some by (simp add: updateTask_def Let_def)
    next
      case b: (Inr b)
      show ?thesis
      proof (cases b)
        case True
        then show ?thesis using Inr Some b by (simp add: updateTask_def Let_def)
      next
        case False
        then have ok: "nonEmptyString (taskTitle ?t)"
          using b trimsToEmpty_False by (simp add: taskTitle_def)
        have "tasks (snd (updateTask now saved tid updates tm)) = (tasks tm)[i := ?t]"
          using Inr Some b False
          by (auto simp: updateTask_def Let_def split: prod.splits sum.splits dest!: emit_result)
        with ok show ?thesis by blast
      qed
    qed
  qed
qed

lemma mapSet_values_subset: "snd ` set (mapSet m k v) \<subseteq> insert v (snd ` set m)"
  by (induction m) (fastforce split: if_splits)+

lemma setAllById_values:
  "setAllById m ts = Inr m' \<Longrightarrow> snd ` set m' \<subseteq> snd ` set m \<union> set ts"
proof (induction ts arbitrary: m)
  case Nil
  then show ?case by simp
next
  case (Cons t ts)
  then obtain k where k: "getProp t ''id'' = Inr k" and run: "setAllById (mapSet m k t) ts = Inr m'"
    by (auto split: sum.splits)
  from Cons.IH [OF run] mapSet_values_subset [of m k t] show ?case by auto
qed

lemma mergeServer_values:
  "mergeServer D m calls ts = (Inr m', calls') \<Longrightarrow> snd ` set m' \<subseteq> snd ` set m \<union> set ts"
proof (induction ts arbitrary: m calls)
  case Nil
  then show ?case by simp
next
  case (Cons t ts)
  then obtain k where k: "getProp t ''id'' = Inr k"
    by (auto split: sum.splits)
  let ?l = "mapGet m k"
  show ?case
  proof (cases "truthy ?l \<and> \<not> dateGe (D (propOf t ''updatedAt'')) (D (propOf ?l ''updatedAt''))")
    case True
    then have "mergeServer D m (calls @ [ApiUpdateTask k ?l]) ts = (Inr m', calls')"
      using Cons.prems k by (simp add: Let_def)
    from Cons.IH [OF this] show ?thesis by auto
  next
    case False
    then have "mergeServer D (mapSet m k t) calls ts = (Inr m', calls')"
      using Cons.prems k by (auto simp: Let_def split: if_splits)
    from Cons.IH [OF this] mapSet_values_subset [of m k t] show ?thesis by auto
  qed
qed

lemma mergeTasks_values:
  "mergeTasks D tm L S = (Inr merged, tm') \<Longrightarrow> set merged \<subseteq> set L \<union> set S"
proof -
  assume r: "mergeTasks D tm L S = (Inr merged, tm')"
  then obtain m where m: "setAllById [] L = Inr m"
    by (auto simp: mergeTasks_def split: sum.splits)
  from r m obtain m' calls where m': "mergeServer D m [] S = (Inr m', calls)" "merged = mapValues m'"
    by (auto simp: mergeTasks_def split: sum.splits prod.splits)
  have "set merged = snd ` set m'"
    by (simp add: m'(2) mapValues_def)
  moreover have "snd ` set m \<subseteq> set L"
    using setAllById_values [OF m] by simp
  ultimately show ?thesis
    using mergeServer_values [OF m'(1)] by blast
qed

lemma syncWithServer_tasks:
  "tasks (snd (syncWithServer D saved synced response tm)) = tasks tm
   \<or> (\<exists>serverTasks. response = Inr serverTasks
        \<and> set (tasks (snd (syncWithServer D saved synced response tm)))
            \<subseteq> set (tasks tm) \<union> set serverTasks)"
proof (cases response)
  case (Inl e)
  then show ?thesis by (simp add: syncWithServer_def)
next
  case (Inr serverTasks)
  let ?tm0 = "tm\<lparr>apiRequests := apiRequests tm @ [ApiGetTasks]\<rparr>"
  obtain r tm1 where run: "mergeTasks D ?tm0 (tasks tm) serverTasks = (r, tm1)"
    by (cases "mergeTasks D ?tm0 (tasks tm) serverTasks")
  from mergeTasks_shape [of D "tasks tm" serverTasks] run
  have tm1: "tasks tm1 = tasks tm"
    by auto
  show ?thesis
  proof (cases r)
    case (Inl e)
    then show ?thesis using Inr run tm1 by (simp add: syncWithServer_def)
  next
    case m: (Inr merged)
    from mergeTasks_values [OF run [unfolded m]]
    have sub: "set merged \<subseteq> set (tasks tm) \<union> set serverTasks" .
    have "tasks (snd (syncWithServer D saved synced response tm)) = merged"
      using Inr run m
      by (auto simp: syncWithServer_def split: prod.splits sum.splits dest!: emit_result)
    then show ?thesis using sub Inr by simp
  qed
qed


lemma titlesOk_subset: "set xs \<subseteq> set ys \<union> set zs \<Longrightarrow> titlesOk ys \<Longrightarrow> titlesOk zs \<Longrightarrow> titlesOk xs"
  unfolding titlesOk_def list_all_iff by blast





section \<open>Lemmas on POST /sync\<close>

lemma getProp_taskId: "getProp t ''id'' = Inr v \<Longrightarrow> taskId t = v"
  by (cases t) (simp_all add: taskId_def)

lemma findIndexOfId_Some:
  "findIndexOfId k ts = Inr (Some i) \<Longrightarrow> i < length ts \<and> taskId (ts ! i) = k"
proof (induction ts arbitrary: i)
  case Nil
  then show ?case by simp
next
  case (Cons t ts)
  then obtain v where v: "getProp t ''id'' = Inr v"
    by (auto split: sum.splits)
  show ?case
  proof (cases "strictEquals v k")
    case True
    then have "i = 0" using Cons.prems v by simp
    then show ?thesis using v True getProp_taskId by (simp add: strictEquals_def)
  next
    case False
    then obtain j where j: "findIndexOfId k ts = Inr (Some j)" "i = Suc j"
      using Cons.prems v by (auto split: sum.splits option.splits)
    from Cons.IH [OF j(1)] j(2) show ?thesis by simp
  qed
qed

lemma findIndexOfId_None:
  "findIndexOfId k ts = Inr None \<Longrightarrow> isPrimitive k \<Longrightarrow> k \<notin> taskId ` set ts"
proof (induction ts)
  case Nil
  then show ?case by simp
next
  case (Cons t ts)
  then obtain v where v: "getProp t ''id'' = Inr v"
    by (auto split: sum.splits)
  have ne: "\<not> strictEquals v k" and rest: "findIndexOfId k ts = Inr None"
    using Cons.prems(1) v by (auto split: if_splits sum.splits option.splits)
  have "taskId t \<noteq> k"
    using ne getProp_taskId [OF v] Cons.prems(2) by (auto simp: strictEquals_def)
  then show ?case
    using Cons.IH [OF rest Cons.prems(2)] by simp
qed

lemma taskId_rowToTask [simp]: "taskId (rowToTask r) = lookupProp r ''id''"
  by (simp add: taskId_def rowToTask_def)

lemma isObject_rowToTask [simp]: "isObject (rowToTask r)"
  by (simp add: rowToTask_def)

lemma insertParams_id: "insertParams D u t = Val (taskId t) # tl (insertParams D u t)"
  by (simp add: insertParams_def taskId_def)

lemma updateParams_id: "updateParams D u t = Val (taskId t) # tl (updateParams D u t)"
  by (simp add: updateParams_def taskId_def)

lemma syncCreateLoop_log:
  "syncCreateLoop D pg u log merged ts = (r, log') \<Longrightarrow> \<exists>ext. log' = log @ ext"
proof (induction ts arbitrary: log merged)
  case Nil
  then show ?case by simp
next
  case (Cons t ts)
  let ?q = "PgInsertTask (insertParams D u t)"
  let ?log1 = "log @ [(?q, pg log ?q)]"
  show ?case
  proof (cases "pg log ?q")
    case (Inl e)
    then show ?thesis using Cons.prems by (auto simp: query_def)
  next
    case (Inr rows)
    show ?thesis
    proof (cases rows)
      case Nil
      then have "syncCreateLoop D pg u ?log1 merged ts = (r, log')"
        using Cons.prems Inr by (simp add: query_def)
      from Cons.IH [OF this] show ?thesis by auto
    next
      case (Cons row rs)
      show ?thesis
      proof (cases "findIndexOfId (propOf t ''id'') merged")
        case (Inl e)
        then show ?thesis using Cons.prems Inr Cons by (auto simp: query_def)
      next
        case found: (Inr f)
        then obtain merged1 where "syncCreateLoop D pg u ?log1 merged1 ts = (r, log')"
          using Cons.prems Inr Cons by (cases f) (auto simp: query_def Let_def)
        from Cons.IH [OF this] show ?thesis by auto
      qed
    qed
  qed
qed

lemma syncUpdateLoop_log:
  "syncUpdateLoop D pg u log merged ts = (r, log') \<Longrightarrow> \<exists>ext. log' = log @ ext"
proof (induction ts arbitrary: log merged)
  case Nil
  then show ?case by simp
next
  case (Cons t ts)
  let ?q = "PgUpdateTask (updateParams D u t)"
  let ?log1 = "log @ [(?q, pg log ?q)]"
  show ?case
  proof (cases "pg log ?q")
    case (Inl e)
    then show ?thesis using Cons.prems by (auto simp: query_def)
  next
    case (Inr rows)
    show ?thesis
    proof (cases rows)
      case Nil
      then have "syncUpdateLoop D pg u ?log1 merged ts = (r, log')"
        using Cons.prems Inr by (simp add: query_def)
      from Cons.IH [OF this] show ?thesis by auto
    next
      case (Cons row rs)
      show ?thesis
      proof (cases "findIndexOfId (propOf t ''id'') merged")
        case (Inl e)
        then show ?thesis using Cons.prems Inr Cons by (auto simp: query_def)
      next
        case found: (Inr f)
        then obtain merged1 where "syncUpdateLoop D pg u ?log1 merged1 ts = (r, log')"
          using Cons.prems Inr Cons by (cases f) (auto simp: query_def Let_def)
        from Cons.IH [OF this] show ?thesis by auto
      qed
    qed
  qed
qed



lemma list_all_update: "list_all P xs \<Longrightarrow> P c \<Longrightarrow> list_all P (xs[i := c])"
  unfolding list_all_iff using set_update_subset_insert [of xs i c] by auto

lemma map_update_same: "i < length xs \<Longrightarrow> f c = f (xs ! i) \<Longrightarrow> map f (xs[i := c]) = map f xs"
  by (simp add: map_update list_update_same_conv)

text \<open>One round of the loop over \<^verbatim>\<open>tasksToCreate\<close> that ends well.\<close>

lemma syncCreateLoop_round:
  assumes "syncCreateLoop D pg u log merged (t # ts) = (Inr merged', log')"
  shows "\<exists>rows merged1.
      pg log (PgInsertTask (insertParams D u t)) = Inr rows
      \<and> syncCreateLoop D pg u (log @ [(PgInsertTask (insertParams D u t), Inr rows)]) merged1 ts
          = (Inr merged', log')
      \<and> (rows = [] \<and> merged1 = merged
         \<or> (\<exists>i. findIndexOfId (taskId t) merged = Inr (Some i)
                \<and> rows \<noteq> [] \<and> merged1 = merged[i := rowToTask (hd rows)])
         \<or> (findIndexOfId (taskId t) merged = Inr None
                \<and> rows \<noteq> [] \<and> merged1 = merged @ [rowToTask (hd rows)]))"
proof -
  let ?q = "PgInsertTask (insertParams D u t)"
  obtain rows where rows: "pg log ?q = Inr rows"
    using assms by (cases "pg log ?q") (auto simp: query_def)
  show ?thesis
  proof (cases rows)
    case Nil
    then show ?thesis using assms rows by (simp add: query_def)
  next
    case (Cons row rs)
    then obtain f where f: "findIndexOfId (taskId t) merged = Inr f"
      using assms rows
      by (cases "findIndexOfId (taskId t) merged") (auto simp: query_def taskId_def)
    then show ?thesis
      using assms rows Cons by (cases f) (auto simp: query_def taskId_def Let_def)
  qed
qed

lemma syncUpdateLoop_round:
  assumes "syncUpdateLoop D pg u log merged (t # ts) = (Inr merged', log')"
  shows "\<exists>rows merged1.
      pg log (PgUpdateTask (updateParams D u t)) = Inr rows
      \<and> syncUpdateLoop D pg u (log @ [(PgUpdateTask (updateParams D u t), Inr rows)]) merged1 ts
          = (Inr merged', log')
      \<and> (merged1 = merged
         \<or> (\<exists>i. findIndexOfId (taskId t) merged = Inr (Some i)
                \<and> rows \<noteq> [] \<and> merged1 = merged[i := rowToTask (hd rows)]))"
proof -
  let ?q = "PgUpdateTask (updateParams D u t)"
  obtain rows where rows: "pg log ?q = Inr rows"
    using assms by (cases "pg log ?q") (auto simp: query_def)
  show ?thesis
  proof (cases rows)
    case Nil
    then show ?thesis using assms rows by (simp add: query_def)
  next
    case (Cons row rs)
    then obtain f where f: "findIndexOfId (taskId t) merged = Inr f"
      using assms rows
      by (cases "findIndexOfId (taskId t) merged") (auto simp: query_def taskId_def)
    then show ?thesis
      using assms rows Cons by (cases f) (auto simp: query_def taskId_def Let_def)
  qed
qed

lemma ownId_insert:
  "returnsOwnIds log \<Longrightarrow> (PgInsertTask (insertParams D u t), Inr rows) \<in> set log \<Longrightarrow> rows \<noteq> []
   \<Longrightarrow> taskId (rowToTask (hd rows)) = taskId t"
proof -
  assume a: "returnsOwnIds log" "(PgInsertTask (insertParams D u t), Inr rows) \<in> set log"
    "rows \<noteq> []"
  then have "ownIdAnswer (PgInsertTask (insertParams D u t), Inr rows)"
    by (simp add: returnsOwnIds_def list_all_iff)
  then have "ownIdAnswer (PgInsertTask (Val (taskId t) # tl (insertParams D u t)),
      Inr (hd rows # tl rows))"
    using a(3) insertParams_id [of D u t] by simp
  then show ?thesis by simp
qed

lemma ownId_update:
  "returnsOwnIds log \<Longrightarrow> (PgUpdateTask (updateParams D u t), Inr rows) \<in> set log \<Longrightarrow> rows \<noteq> []
   \<Longrightarrow> taskId (rowToTask (hd rows)) = taskId t"
proof -
  assume a: "returnsOwnIds log" "(PgUpdateTask (updateParams D u t), Inr rows) \<in> set log"
    "rows \<noteq> []"
  then have "ownIdAnswer (PgUpdateTask (updateParams D u t), Inr rows)"
    by (simp add: returnsOwnIds_def list_all_iff)
  then have "ownIdAnswer (PgUpdateTask (Val (taskId t) # tl (updateParams D u t)),
      Inr (hd rows # tl rows))"
    using a(3) updateParams_id [of D u t] by simp
  then show ?thesis by simp
qed

lemma created_insert:
  "everyInsertCreates log \<Longrightarrow> (PgInsertTask ps, Inr rows) \<in> set log \<Longrightarrow> rows \<noteq> []"
proof -
  assume a: "everyInsertCreates log" "(PgInsertTask ps, Inr rows) \<in> set log"
  then have "createdAnswer (PgInsertTask ps, Inr rows)"
    by (simp add: everyInsertCreates_def list_all_iff)
  then show ?thesis by (cases rows) simp_all
qed

lemma syncCreateLoop_ids:
  assumes "syncCreateLoop D pg u log merged ts = (Inr merged', log')"
    and "returnsOwnIds log'" and "everyInsertCreates log'"
    and "list_all isObject merged" and "list_all isTask ts"
  shows "list_all isObject merged'
    \<and> set (map taskId merged') = set (map taskId merged) \<union> taskId ` set ts
    \<and> (distinct (map taskId merged) \<longrightarrow> distinct (map taskId merged'))"
  using assms
proof (induction ts arbitrary: log merged)
  case Nil
  then show ?case by simp
next
  case (Cons t ts)
  let ?q = "PgInsertTask (insertParams D u t)"
  from syncCreateLoop_round [OF Cons.prems(1)] obtain rows merged1 where r:
    "pg log ?q = Inr rows"
    "syncCreateLoop D pg u (log @ [(?q, Inr rows)]) merged1 ts = (Inr merged', log')"
    "rows = [] \<and> merged1 = merged
     \<or> (\<exists>i. findIndexOfId (taskId t) merged = Inr (Some i)
            \<and> rows \<noteq> [] \<and> merged1 = merged[i := rowToTask (hd rows)])
     \<or> (findIndexOfId (taskId t) merged = Inr None
            \<and> rows \<noteq> [] \<and> merged1 = merged @ [rowToTask (hd rows)])"
    by blast
  from syncCreateLoop_log [OF r(2)] have mem: "(?q, Inr rows) \<in> set log'"
    by auto
  have ne: "rows \<noteq> []"
    using created_insert [OF Cons.prems(3) mem] .
  have id: "taskId (rowToTask (hd rows)) = taskId t"
    using ownId_insert [OF Cons.prems(2) mem ne] .
  have tasks: "list_all isTask ts"
    using Cons.prems(5) by simp
  have prim: "isPrimitive (taskId t)"
    using Cons.prems(5) by (simp add: isTask_def)
  have step: "list_all isObject merged1
      \<and> set (map taskId merged1) = insert (taskId t) (set (map taskId merged))
      \<and> (distinct (map taskId merged) \<longrightarrow> distinct (map taskId merged1))"
  proof -
    from r(3) ne consider
      (found) i where "findIndexOfId (taskId t) merged = Inr (Some i)"
        "merged1 = merged[i := rowToTask (hd rows)]"
      | (new) "findIndexOfId (taskId t) merged = Inr None"
        "merged1 = merged @ [rowToTask (hd rows)]"
      by blast
    then show ?thesis
    proof cases
      case found
      from findIndexOfId_Some [OF found(1)]
      have i: "i < length merged" "taskId (merged ! i) = taskId t" by simp_all
      have m: "map taskId merged1 = map taskId merged"
        unfolding found(2) using i id by (intro map_update_same) simp_all
      have "taskId t \<in> set (map taskId merged)"
        using i by (metis nth_mem length_map nth_map)
      moreover have "list_all isObject merged1"
        unfolding found(2) using Cons.prems(4) by (intro list_all_update) simp_all
      ultimately show ?thesis
        unfolding m by auto
    next
      case new
      from findIndexOfId_None [OF new(1) prim]
      have "taskId t \<notin> taskId ` set merged" .
      then show ?thesis
        unfolding new(2) using Cons.prems(4) id by simp
    qed
  qed
  from Cons.IH [OF r(2) Cons.prems(2,3) step [THEN conjunct1] tasks] step
  show ?case by auto
qed

lemma syncUpdateLoop_ids:
  assumes "syncUpdateLoop D pg u log merged ts = (Inr merged', log')"
    and "returnsOwnIds log'" and "list_all isObject merged"
  shows "list_all isObject merged' \<and> map taskId merged' = map taskId merged"
  using assms
proof (induction ts arbitrary: log merged)
  case Nil
  then show ?case by simp
next
  case (Cons t ts)
  let ?q = "PgUpdateTask (updateParams D u t)"
  from syncUpdateLoop_round [OF Cons.prems(1)] obtain rows merged1 where r:
    "pg log ?q = Inr rows"
    "syncUpdateLoop D pg u (log @ [(?q, Inr rows)]) merged1 ts = (Inr merged', log')"
    "merged1 = merged
     \<or> (\<exists>i. findIndexOfId (taskId t) merged = Inr (Some i)
            \<and> rows \<noteq> [] \<and> merged1 = merged[i := rowToTask (hd rows)])"
    by blast
  from syncUpdateLoop_log [OF r(2)] have mem: "(?q, Inr rows) \<in> set log'"
    by auto
  have step: "list_all isObject merged1 \<and> map taskId merged1 = map taskId merged"
  proof -
    from r(3) consider
      (same) "merged1 = merged"
      | (found) i where "findIndexOfId (taskId t) merged = Inr (Some i)" "rows \<noteq> []"
        "merged1 = merged[i := rowToTask (hd rows)]"
      by blast
    then show ?thesis
    proof cases
      case same
      then show ?thesis using Cons.prems(3) by simp
    next
      case found
      from findIndexOfId_Some [OF found(1)]
      have i: "i < length merged" "taskId (merged ! i) = taskId t" by simp_all
      have id: "taskId (rowToTask (hd rows)) = taskId t"
        using ownId_update [OF Cons.prems(2) mem found(2)] .
      have m: "map taskId merged1 = map taskId merged"
        unfolding found(3) using i id by (intro map_update_same) simp_all
      moreover have "list_all isObject merged1"
        unfolding found(3) using Cons.prems(3) by (intro list_all_update) simp_all
      ultimately show ?thesis by simp
    qed
  qed
  from Cons.IH [OF r(2) Cons.prems(2) step [THEN conjunct1]] step
  show ?case by simp
qed


lemma mset_insertByDate: "mset (insertByDate D a bs) = add_mset a (mset bs)"
  by (induction bs) simp_all

lemma mset_sortByUpdatedAt: "mset (sortByUpdatedAt D ts) = mset ts"
  by (induction ts) (simp_all add: sortByUpdatedAt_def mset_insertByDate)

lemma set_sortByUpdatedAt: "set (sortByUpdatedAt D ts) = set ts"
  using mset_sortByUpdatedAt [of D ts] by (metis set_mset_mset)

lemma distinct_ids_sortByUpdatedAt:
  "distinct (map taskId (sortByUpdatedAt D ts)) = distinct (map taskId ts)"
proof -
  have "mset (map taskId (sortByUpdatedAt D ts)) = mset (map taskId ts)"
    by (simp add: mset_sortByUpdatedAt)
  then show ?thesis
    by (rule mset_eq_imp_distinct_iff)
qed

text \<open>What a response with status 200 tells about the run of the handler.\<close>

lemma postSync_ok:
  assumes "postSync D pg u body = (SyncOk T stats, log)"
    and "getProp body ''tasks'' = Inr (JArr C)"
  shows "\<exists>connected begun rows m c upd m1 log3 m2 log4 committed.
     syncMerge D C (map rowToTask rows) = Inr (m, c, upd)
     \<and> syncCreateLoop D pg u
          [(PgConnect, Inr connected), (PgBegin, Inr begun), (PgSelectTasks u, Inr rows)] m c
         = (Inr m1, log3)
     \<and> syncUpdateLoop D pg u log3 m1 upd = (Inr m2, log4)
     \<and> log = log4 @ [(PgCommit, Inr committed)]
     \<and> T = sortByUpdatedAt D m2
     \<and> stats = \<lparr>total = length m2, created = length c, updated = length upd,
          serverOnly = serverOnlyCount (map rowToTask rows) C\<rparr>"
proof -
  obtain connected where c0: "pg [] PgConnect = Inr connected"
    using assms by (cases "pg [] PgConnect") (auto simp: postSync_def query_def)
  let ?l1 = "[(PgConnect, Inr connected :: answer)]"
  obtain r where tr: "syncTransaction D pg u C ?l1 = (Inr r, log)" and r: "r = SyncOk T stats"
    using assms c0
    by (cases "syncTransaction D pg u C ?l1"; cases "fst (syncTransaction D pg u C ?l1)")
      (auto simp: postSync_def query_def)
  obtain begun where c1: "pg ?l1 PgBegin = Inr begun"
    using tr by (cases "pg ?l1 PgBegin") (auto simp: syncTransaction_def query_def)
  let ?l2 = "?l1 @ [(PgBegin, Inr begun)]"
  obtain rows where c2: "pg ?l2 (PgSelectTasks u) = Inr rows"
    using tr c1 by (cases "pg ?l2 (PgSelectTasks u)") (auto simp: syncTransaction_def query_def)
  let ?l3 = "?l2 @ [(PgSelectTasks u, Inr rows)]"
  obtain m c upd where sm: "syncMerge D C (map rowToTask rows) = Inr (m, c, upd)"
    using tr c1 c2
    by (cases "syncMerge D C (map rowToTask rows)") (auto simp: syncTransaction_def query_def)
  obtain r3 log3 where cl: "syncCreateLoop D pg u ?l3 m c = (r3, log3)"
    by (cases "syncCreateLoop D pg u ?l3 m c")
  obtain m1 where m1: "r3 = Inr m1"
    using tr c1 c2 sm cl by (cases r3) (auto simp: syncTransaction_def query_def)
  obtain r4 log4 where ul: "syncUpdateLoop D pg u log3 m1 upd = (r4, log4)"
    by (cases "syncUpdateLoop D pg u log3 m1 upd")
  obtain m2 where m2: "r4 = Inr m2"
    using tr c1 c2 sm cl m1 ul by (cases r4) (auto simp: syncTransaction_def query_def)
  obtain committed where c5: "pg log4 PgCommit = Inr committed"
    using tr c1 c2 sm cl m1 ul m2
    by (cases "pg log4 PgCommit") (auto simp: syncTransaction_def query_def)
  have res: "r = SyncOk (sortByUpdatedAt D m2)
      \<lparr>total = length m2, created = length c, updated = length upd,
       serverOnly = serverOnlyCount (map rowToTask rows) C\<rparr>"
    and lg: "log = log4 @ [(PgCommit, Inr committed)]"
    using tr c1 c2 sm cl m1 ul m2 c5 by (auto simp: syncTransaction_def query_def)
  show ?thesis
    using sm cl [unfolded m1] ul [unfolded m2] lg res [unfolded r]
    by (intro exI conjI) simp_all
qed


lemma syncMerge_ids:
  assumes L: "list_all isTask localTasks" and S: "list_all isTask serverTasks"
  shows "\<exists>mergedTasks tasksToCreate tasksToUpdate.
            syncMerge D localTasks serverTasks = Inr (mergedTasks, tasksToCreate, tasksToUpdate)
            \<and> set (map taskId mergedTasks) = taskId ` set serverTasks
            \<and> tasksToCreate = filter (\<lambda>c. taskId c \<notin> taskId ` set serverTasks) localTasks
            \<and> (distinct (map taskId localTasks) \<and> distinct (map taskId serverTasks)
                \<longrightarrow> distinct (map taskId mergedTasks))
            \<and> set mergedTasks \<subseteq> set localTasks \<union> set serverTasks
            \<and> set tasksToUpdate \<subseteq> {c \<in> set localTasks. taskId c \<in> taskId ` set serverTasks}"
proof -
  let ?inS = "\<lambda>c. taskId c \<in> taskId ` set serverTasks"
  let ?pick = "\<lambda>c. if dateGt (D (propOf c ''updatedAt''))
      (D (propOf (serverVersion serverTasks c) ''updatedAt''))
      then c else serverVersion serverTasks c"
  let ?merged = "map ?pick (filter ?inS localTasks)
      @ filter (\<lambda>s. taskId s \<notin> taskId ` set localTasks) serverTasks"
  let ?create = "filter (\<lambda>c. \<not> ?inS c) localTasks"
  let ?update = "filter (\<lambda>c. ?inS c \<and> dateGt (D (propOf c ''updatedAt''))
          (D (propOf (serverVersion serverTasks c) ''updatedAt''))) localTasks"
  have pick_id: "taskId (?pick c) = taskId c" if "?inS c" for c
    using serverVersion_in [OF that] by simp
  have pick_in: "?pick c \<in> set localTasks \<union> set serverTasks"
    if "?inS c" "c \<in> set localTasks" for c
    using serverVersion_in [OF that(1)] that(2) by simp
  have midsA: "map taskId (map ?pick (filter ?inS localTasks)) = map taskId (filter ?inS localTasks)"
    using pick_id by (simp del: set_map)
  have mids: "map taskId ?merged = map taskId (filter ?inS localTasks)
      @ map taskId (filter (\<lambda>s. taskId s \<notin> taskId ` set localTasks) serverTasks)"
    by (simp only: map_append midsA)
  have 1: "set (map taskId ?merged) = taskId ` set serverTasks"
    unfolding mids by (simp add: ids_split)
  have 3: "distinct (map taskId localTasks) \<and> distinct (map taskId serverTasks)
      \<longrightarrow> distinct (map taskId ?merged)"
  proof
    assume True: "distinct (map taskId localTasks) \<and> distinct (map taskId serverTasks)"
    let ?A = "map taskId (filter ?inS localTasks)"
    let ?B = "map taskId (filter (\<lambda>s. taskId s \<notin> taskId ` set localTasks) serverTasks)"
    have d: "distinct ?A" "distinct ?B"
      using True by (simp_all add: distinct_map_filter)
    have sA: "set ?A = taskId ` {x \<in> set localTasks. taskId x \<in> taskId ` set serverTasks}"
      and sB: "set ?B = taskId ` {x \<in> set serverTasks. taskId x \<notin> taskId ` set localTasks}"
      by simp_all
    have AB: "set ?A \<inter> set ?B = {}"
      unfolding sA sB by (rule ids_disj1)
    have "distinct (?A @ ?B)"
      using d AB by (simp only: distinct_append set_append simp_thms)
    then show "distinct (map taskId ?merged)"
      by (simp only: mids)
  qed
  have 4: "set ?merged \<subseteq> set localTasks \<union> set serverTasks"
  proof
    fix x
    assume "x \<in> set ?merged"
    then have "x \<in> ?pick ` set (filter ?inS localTasks)
        \<or> x \<in> set (filter (\<lambda>s. taskId s \<notin> taskId ` set localTasks) serverTasks)"
      by (simp only: set_append set_map Un_iff)
    then show "x \<in> set localTasks \<union> set serverTasks"
    proof
      assume "x \<in> ?pick ` set (filter ?inS localTasks)"
      then obtain c where c: "c \<in> set (filter ?inS localTasks)" and x: "x = ?pick c"
        by (rule imageE)
      from c have "?inS c" "c \<in> set localTasks" by simp_all
      then show ?thesis
        unfolding x by (rule pick_in)
    next
      assume "x \<in> set (filter (\<lambda>s. taskId s \<notin> taskId ` set localTasks) serverTasks)"
      then show ?thesis by simp
    qed
  qed
  have 5: "set ?update \<subseteq> {c \<in> set localTasks. taskId c \<in> taskId ` set serverTasks}"
    by auto
  have eq: "syncMerge D localTasks serverTasks = Inr (?merged, ?create, ?update)"
    by (rule syncMerge_closed [OF L S])
  show ?thesis
    by (intro exI conjI; (fact eq 1 3 4 5 refl))
qed

lemma postSync_ids:
  assumes run: "postSync D pg userId body = (SyncOk T stats, log)"
    and body: "getProp body ''tasks'' = Inr (JArr clientTasks)"
    and sel: "log ! 2 = (PgSelectTasks userId, Inr rows)"
    and C: "list_all isTask clientTasks" and S: "list_all isTask (map rowToTask rows)"
    and own: "returnsOwnIds log" and ins: "everyInsertCreates log"
  shows "set (map taskId T) = taskId ` set clientTasks \<union> taskId ` set (map rowToTask rows)
     \<and> (distinct (map taskId clientTasks) \<and> distinct (map taskId (map rowToTask rows))
          \<longrightarrow> distinct (map taskId T))"
proof -
  from postSync_ok [OF run body] obtain connected begun rows' m c upd m1 log3 m2 log4 committed
    where r: "syncMerge D clientTasks (map rowToTask rows') = Inr (m, c, upd)"
      "syncCreateLoop D pg userId
          [(PgConnect, Inr connected), (PgBegin, Inr begun), (PgSelectTasks userId, Inr rows')] m c
         = (Inr m1, log3)"
      "syncUpdateLoop D pg userId log3 m1 upd = (Inr m2, log4)"
      "log = log4 @ [(PgCommit, Inr committed)]"
      "T = sortByUpdatedAt D m2"
    by blast
  from syncCreateLoop_log [OF r(2)] obtain e3 where e3:
    "log3 = [(PgConnect, Inr connected), (PgBegin, Inr begun), (PgSelectTasks userId, Inr rows')] @ e3"
    by blast
  from syncUpdateLoop_log [OF r(3)] obtain e4 where e4: "log4 = log3 @ e4"
    by blast
  have "log ! 2 = (PgSelectTasks userId, Inr rows')"
    unfolding r(4) e4 e3 by simp
  then have rows: "rows' = rows"
    using sel by simp
  let ?S = "map rowToTask rows"
  from syncMerge_ids [OF C S, of D] r(1) [unfolded rows]
  have m: "set (map taskId m) = taskId ` set ?S"
    "c = filter (\<lambda>c. taskId c \<notin> taskId ` set ?S) clientTasks"
    "distinct (map taskId clientTasks) \<and> distinct (map taskId ?S) \<longrightarrow> distinct (map taskId m)"
    "set m \<subseteq> set clientTasks \<union> set ?S"
    by auto
  have objs: "list_all isObject m"
    using m(4) C S by (auto simp: list_all_iff isTask_def)
  have tasks: "list_all isTask c"
    using C by (simp add: m(2) list_all_iff)
  have own4: "returnsOwnIds log4" and ins4: "everyInsertCreates log4"
    using own ins unfolding r(4) by (simp_all add: returnsOwnIds_def everyInsertCreates_def)
  have own3: "returnsOwnIds log3" and ins3: "everyInsertCreates log3"
    using own4 ins4 unfolding e4 by (simp_all add: returnsOwnIds_def everyInsertCreates_def)
  from syncCreateLoop_ids [OF r(2) own3 ins3 objs tasks]
  have m1: "list_all isObject m1" "set (map taskId m1) = set (map taskId m) \<union> taskId ` set c"
    "distinct (map taskId m) \<longrightarrow> distinct (map taskId m1)"
    by simp_all
  from syncUpdateLoop_ids [OF r(3) own4 m1(1)]
  have m2: "map taskId m2 = map taskId m1"
    by simp
  have cids: "taskId ` set c = taskId ` set clientTasks - taskId ` set ?S"
    unfolding m(2) by (simp add: ids_diff)
  have "set (map taskId T) = set (map taskId m2)"
    unfolding r(5) by (simp add: set_sortByUpdatedAt)
  then have 1: "set (map taskId T) = taskId ` set clientTasks \<union> taskId ` set ?S"
    unfolding m2 m1(2) m(1) cids by auto
  have 2: "distinct (map taskId clientTasks) \<and> distinct (map taskId ?S) \<longrightarrow> distinct (map taskId T)"
    unfolding r(5) distinct_ids_sortByUpdatedAt m2 using m(3) m1(3) by blast
  show ?thesis
    using 1 2 by blast
qed








subsection \<open>What the results depend on\<close>

















section \<open>The claims on reconciliation\<close>

text \<open>
  C1 (as amended). For any two arrays of task objects, \<^verbatim>\<open>TaskManager.mergeTasks\<close> returns
  exactly one entry for every id of either input and no entry for any other id, and an
  entry that is not one of the server's is the last-seen local entry of its id.
  \<^verbatim>\<open>POST /sync\<close> answers with tasks that have exactly the ids of either input, when it
  answers with status 200, the database returns every row under the id it was given, and
  every \<^verbatim>\<open>INSERT\<close> returns its row; when neither input has a duplicate id, no id occurs
  twice among these tasks.
\<close>

theorem merge_ids_are_union:
  assumes L: "list_all isTask localTasks" and S: "list_all isTask serverTasks"
  shows "(\<exists>merged tm'. mergeTasks D tm localTasks serverTasks = (Inr merged, tm')
            \<and> set (map taskId merged) = taskId ` (set localTasks \<union> set serverTasks)
            \<and> distinct (map taskId merged)
            \<and> list_all (\<lambda>v. lastWithId (taskId v) localTasks = Some v \<or> v \<in> set serverTasks) merged)
       \<and> (postSync D pg userId body = (SyncOk T stats, log)
            \<and> getProp body ''tasks'' = Inr (JArr localTasks)
            \<and> log ! 2 = (PgSelectTasks userId, Inr rows) \<and> serverTasks = map rowToTask rows
            \<and> returnsOwnIds log \<and> everyInsertCreates log
          \<longrightarrow> set (map taskId T) = taskId ` (set localTasks \<union> set serverTasks)
             \<and> (distinct (map taskId localTasks) \<and> distinct (map taskId serverTasks)
                  \<longrightarrow> distinct (map taskId T)))"
proof (rule conjI)
  from mergeTasks_run [OF L S, of D tm] obtain m m' new where r:
    "okMap m" "\<forall>k. map_of m k = lastWithId k localTasks"
    "mergeServer D m [] serverTasks = (Inr m', new)" "okMap m'"
    "fst ` set m' = taskId ` set localTasks \<union> taskId ` set serverTasks"
    "mergeTasks D tm localTasks serverTasks
       = (Inr (mapValues m'), tm\<lparr>apiRequests := apiRequests tm @ new\<rparr>)"
    by (elim exE conjE)
  have ids: "map taskId (mapValues m') = map fst m'"
    using r(4) by (rule okMap_values_ids)
  have 1: "set (map taskId (mapValues m')) = taskId ` (set localTasks \<union> set serverTasks)"
    using r(5) by (simp add: ids image_Un del: set_map) (simp add: image_Un)
  have 2: "distinct (map taskId (mapValues m'))"
    using r(4) by (simp add: ids okMap_def)
  from mergeServer_frame [OF r(1) S r(3)]
  have sub: "snd ` set m' \<subseteq> snd ` set m \<union> set serverTasks"
    by auto
  have 3: "list_all (\<lambda>v. lastWithId (taskId v) localTasks = Some v \<or> v \<in> set serverTasks)
      (mapValues m')"
    unfolding list_all_iff
  proof
    fix v
    assume "v \<in> set (mapValues m')"
    then have "v \<in> snd ` set m \<or> v \<in> set serverTasks"
      using sub by (auto simp: mapValues_def)
    moreover have "lastWithId (taskId v) localTasks = Some v" if "v \<in> snd ` set m"
    proof -
      from that have "v \<in> set (mapValues m)" by (simp add: mapValues_def)
      then show ?thesis using r(1,2) by (simp add: okMap_values_member)
    qed
    ultimately show "lastWithId (taskId v) localTasks = Some v \<or> v \<in> set serverTasks"
      by blast
  qed
  show "\<exists>merged tm'. mergeTasks D tm localTasks serverTasks = (Inr merged, tm')
            \<and> set (map taskId merged) = taskId ` (set localTasks \<union> set serverTasks)
            \<and> distinct (map taskId merged)
            \<and> list_all (\<lambda>v. lastWithId (taskId v) localTasks = Some v \<or> v \<in> set serverTasks) merged"
    using r(6) 1 2 3 by blast
next
  show "postSync D pg userId body = (SyncOk T stats, log)
            \<and> getProp body ''tasks'' = Inr (JArr localTasks)
            \<and> log ! 2 = (PgSelectTasks userId, Inr rows) \<and> serverTasks = map rowToTask rows
            \<and> returnsOwnIds log \<and> everyInsertCreates log
          \<longrightarrow> set (map taskId T) = taskId ` (set localTasks \<union> set serverTasks)
             \<and> (distinct (map taskId localTasks) \<and> distinct (map taskId serverTasks)
                  \<longrightarrow> distinct (map taskId T))"
  proof
    assume a: "postSync D pg userId body = (SyncOk T stats, log)
            \<and> getProp body ''tasks'' = Inr (JArr localTasks)
            \<and> log ! 2 = (PgSelectTasks userId, Inr rows) \<and> serverTasks = map rowToTask rows
            \<and> returnsOwnIds log \<and> everyInsertCreates log"
    then have S': "list_all isTask (map rowToTask rows)"
      using S by simp
    from a have run: "postSync D pg userId body = (SyncOk T stats, log)"
      and body: "getProp body ''tasks'' = Inr (JArr localTasks)"
      and sel: "log ! 2 = (PgSelectTasks userId, Inr rows)"
      and rows: "serverTasks = map rowToTask rows"
      and own: "returnsOwnIds log" and ins: "everyInsertCreates log"
      by simp_all
    from postSync_ids [OF run body sel L S' own ins]
    show "set (map taskId T) = taskId ` (set localTasks \<union> set serverTasks)
        \<and> (distinct (map taskId localTasks) \<and> distinct (map taskId serverTasks)
             \<longrightarrow> distinct (map taskId T))"
      unfolding rows by (simp add: image_Un)
  qed
qed

theorem merge_ids_are_union_witness:
  "(\<exists>merged tm'.
        mergeTasks exampleDate newTaskManager clientTasksAB (map rowToTask serverRowsAC)
          = (Inr merged, tm')
        \<and> set (map taskId merged) = {JStr ''a'', JStr ''b'', JStr ''c''}
        \<and> distinct (map taskId merged))
   \<and> isSyncOk (fst (postSync exampleDate (echoPg serverRowsAC) (JStr ''u1'') (syncBody clientTasksAB)))
   \<and> set (map taskId (responseTasks
        (fst (postSync exampleDate (echoPg serverRowsAC) (JStr ''u1'') (syncBody clientTasksAB)))))
     = {JStr ''a'', JStr ''b'', JStr ''c''}
   \<and> distinct (map taskId (responseTasks
        (fst (postSync exampleDate (echoPg serverRowsAC) (JStr ''u1'') (syncBody clientTasksAB)))))"
proof -
  let ?L = clientTasksAB
  let ?S = "map rowToTask serverRowsAC"
  let ?p = "postSync exampleDate (echoPg serverRowsAC) (JStr ''u1'') (syncBody clientTasksAB)"
  have L: "list_all isTask ?L" and S: "list_all isTask ?S"
    by (simp_all add: isTask_def taskId_def mkTask_def mkRow_def clientTasksAB_def
        serverRowsAC_def rowToTask_def)
  have ids: "taskId ` (set ?L \<union> set ?S) = {JStr ''a'', JStr ''b'', JStr ''c''}"
    "distinct (map taskId ?L) \<and> distinct (map taskId ?S)"
    by (auto simp: taskId_def mkTask_def mkRow_def clientTasksAB_def serverRowsAC_def
        rowToTask_def)
  have ok: "isSyncOk (fst ?p)"
    by code_simp
  then have run: "?p = (SyncOk (responseTasks (fst ?p)) (responseStats (fst ?p)), snd ?p)"
    by (cases "fst ?p") (simp_all add: prod_eq_iff)
  have body: "getProp (syncBody ?L) ''tasks'' = Inr (JArr ?L)"
    by (simp add: syncBody_def)
  have sel: "snd ?p ! 2 = (PgSelectTasks (JStr ''u1''), Inr serverRowsAC)"
    by code_simp
  have own: "returnsOwnIds (snd ?p)" and ins: "everyInsertCreates (snd ?p)"
    by code_simp+
  note T = merge_ids_are_union [OF L S, of exampleDate newTaskManager]
  from T [THEN conjunct1]
  obtain merged tm' where r:
    "mergeTasks exampleDate newTaskManager ?L ?S = (Inr merged, tm')"
    "set (map taskId merged) = taskId ` (set ?L \<union> set ?S)"
    "distinct (map taskId merged)"
    by blast
  have 1: "\<exists>merged tm'. mergeTasks exampleDate newTaskManager ?L ?S = (Inr merged, tm')
        \<and> set (map taskId merged) = {JStr ''a'', JStr ''b'', JStr ''c''}
        \<and> distinct (map taskId merged)"
    using r(1) r(2) [unfolded ids(1)] r(3) by (intro exI conjI)
  note U = T [THEN conjunct2, rule_format, OF conjI [OF run conjI [OF body
      conjI [OF sel conjI [OF refl conjI [OF own ins]]]]]]
  show ?thesis
    by (intro conjI 1 ok U [THEN conjunct1, unfolded ids(1)]
        U [THEN conjunct2, rule_format, OF ids(2)])
qed

text \<open>
  The claim as stated fails in four cases. In \<^verbatim>\<open>POST /sync\<close>, two client entries with
  the id of a server task give two tasks with that id. In \<^verbatim>\<open>mergeTasks\<close>, of two
  server entries with one id the newer one is kept, not the last-seen one. In
  \<^verbatim>\<open>POST /sync\<close>, a client task whose id the table has already (\<^verbatim>\<open>ON CONFLICT (id) DO
  NOTHING\<close> returns no row) is in no returned task, and a client task whose id the
  database writes in another form comes back under that other id.
\<close>

theorem merge_ids_counterexample:
  "map taskId (responseTasks (fst (postSync exampleDate (echoPg [mkRow ''a'' ''Z'' ''2024-01-01''])
       (JStr ''u1'') (syncBody [mkTask ''a'' ''X'' ''2024-01-02'', mkTask ''a'' ''Y'' ''2024-01-01'']))))
     = [JStr ''a'', JStr ''a'']
   \<and> fst (mergeTasks exampleDate newTaskManager []
          [mkTask ''a'' ''X'' ''2024-01-02'', mkTask ''a'' ''Y'' ''2024-01-01''])
     = Inr [mkTask ''a'' ''X'' ''2024-01-02'']
   \<and> isSyncOk (fst (postSync exampleDate (conflictPg []) (JStr ''u1'')
        (syncBody [mkTask ''b'' ''B'' ''2024-01-01''])))
   \<and> responseTasks (fst (postSync exampleDate (conflictPg []) (JStr ''u1'')
        (syncBody [mkTask ''b'' ''B'' ''2024-01-01'']))) = []
   \<and> map taskId (responseTasks (fst (postSync exampleDate (uuidPg []) (JStr ''u1'')
        (syncBody [mkTask ''B1'' ''B'' ''2024-01-01'']))))
     = [JStr ''b1'']"
  by (simp add: postSync_def syncTransaction_def query_def syncMerge_def syncBody_def mkTask_def
      mkRow_def rowToTask_def sameValueZero_def insertParams_def updateParams_def dueDateValue_def
      orElse_def insertedRow_def updatedRow_def strictEquals_def sortByUpdatedAt_def
      serverOnlyCount_def taskId_def mergeTasks_def mapValues_def Let_def)

text \<open>
  C2. For an id present in both inputs the local version wins only when its
  \<^verbatim>\<open>updatedAt\<close> is strictly later than the server's; otherwise the server version wins
  and no server write is scheduled. \<^verbatim>\<open>mergeTasks\<close> departs from this for a local entry
  whose \<^verbatim>\<open>updatedAt\<close> is not a date (a task without the field, as \<^verbatim>\<open>importTasks\<close>
  admits it): its test \<^verbatim>\<open>serverUpdated >= localUpdated\<close> is false for an Invalid Date,
  so the branch commented \<^verbatim>\<open>Local version is newer\<close> keeps the local entry and sends it
  to the server. On the same input the test \<^verbatim>\<open>clientUpdated > serverUpdated\<close> of
  \<^verbatim>\<open>POST /sync\<close> keeps the server version and schedules nothing.
\<close>

theorem undated_local_version_kept:
  "exampleDate (taskUpdatedAt (JObj [(''id'', JStr ''a''), (''title'', JStr ''L'')])) = None
   \<and> mergeTasks exampleDate newTaskManager
       [JObj [(''id'', JStr ''a''), (''title'', JStr ''L'')]]
       [mkTask ''a'' ''S'' ''2024-01-01'']
     = (Inr [JObj [(''id'', JStr ''a''), (''title'', JStr ''L'')]],
        newTaskManager\<lparr>apiRequests :=
          [ApiUpdateTask (JStr ''a'') (JObj [(''id'', JStr ''a''), (''title'', JStr ''L'')])]\<rparr>)
   \<and> syncMerge exampleDate
       [JObj [(''id'', JStr ''a''), (''title'', JStr ''L'')]]
       [mkTask ''a'' ''S'' ''2024-01-01'']
     = Inr ([mkTask ''a'' ''S'' ''2024-01-01''], [], [])"
  by (simp add: newTaskManager_def mergeTasks_def syncMerge_def mkTask_def sameValueZero_def
      mapValues_def Let_def taskUpdatedAt_def)




text \<open>
  C4 (as amended). \<^verbatim>\<open>mergeTasks\<close> changes no field of the manager and nothing of the
  local store; its only effect besides its result is on the ApiClient, to which it hands
  \<^verbatim>\<open>updateTask\<close> requests and no other request.
\<close>

theorem mergeTasks_only_requests:
  "\<exists>calls. snd (mergeTasks D tm localTasks serverTasks)
      = tm\<lparr>apiRequests := apiRequests tm @ calls\<rparr> \<and> list_all isUpdateCall calls"
proof -
  from mergeTasks_shape [of D localTasks serverTasks] obtain r calls where
    "list_all isUpdateCall calls"
    "\<forall>tm. mergeTasks D tm localTasks serverTasks = (r, tm\<lparr>apiRequests := apiRequests tm @ calls\<rparr>)"
    by (elim exE conjE)
  then have "snd (mergeTasks D tm localTasks serverTasks)
      = tm\<lparr>apiRequests := apiRequests tm @ calls\<rparr> \<and> list_all isUpdateCall calls"
    by simp
  then show ?thesis ..
qed

text \<open>
  The claim as stated fails: on the specification's own first scenario the merge itself
  sends the newer local task to the server.
\<close>

theorem mergeTasks_issues_request_counterexample:
  "apiRequests newTaskManager = []
   \<and> mergeTasks exampleDate newTaskManager
       [mkTask ''a'' ''X'' ''2024-01-02''] [mkTask ''a'' ''Y'' ''2024-01-01'']
     = (Inr [mkTask ''a'' ''X'' ''2024-01-02''],
        newTaskManager\<lparr>apiRequests :=
          [ApiUpdateTask (JStr ''a'') (mkTask ''a'' ''X'' ''2024-01-02'')]\<rparr>)"
  by (simp add: newTaskManager_def mergeTasks_def mkTask_def sameValueZero_def mapValues_def Let_def)



section \<open>The claims on the local store\<close>

text \<open>
  C6 (as amended). \<^verbatim>\<open>loadTasks()\<close> returns every stored entry as it is, an entry
  without a required field included, and does not fail because of such an entry. It is
  \<^verbatim>\<open>cleanup()\<close> that drops entries: it keeps the entries that are objects in which
  \<^verbatim>\<open>id\<close>, \<^verbatim>\<open>title\<close>, \<^verbatim>\<open>createdAt\<close> and \<^verbatim>\<open>updatedAt\<close> are all present and count
  as true. When every entry is kept, it returns them and leaves the store alone. When
  an entry is dropped, it saves the kept entries, so that the store is as that save
  leaves it, and returns them, or rejects with the error of the save.
\<close>

theorem load_keeps_cleanup_drops:
  assumes stored: "if useIndexedDB st
      then db st \<and> \<not> getAllFails st \<and> objectStore st = entries
      else localStorageItem st = Some (JSONText doc) \<and> propOf doc ''tasks'' = JArr entries"
  shows "loadTasks st = Inr entries
       \<and> (list_all hasRequiredFields entries \<longrightarrow> cleanup now st = (Inr entries, st))
       \<and> (\<not> list_all hasRequiredFields entries \<longrightarrow>
            snd (cleanup now st) = snd (saveTasks now (filter hasRequiredFields entries) st)
            \<and> fst (cleanup now st)
              = (case fst (saveTasks now (filter hasRequiredFields entries) st) of
                   Inl e \<Rightarrow> Inl e
                 | Inr u \<Rightarrow> Inr (filter hasRequiredFields entries)))"
proof -
  have load: "loadTasks st = Inr entries"
  proof (cases "useIndexedDB st")
    case True
    then show ?thesis using stored by (simp add: loadTasks_def loadTasksIndexedDB_def)
  next
    case False
    then have d: "localStorageItem st = Some (JSONText doc)" "propOf doc ''tasks'' = JArr entries"
      using stored by simp_all
    then have "truthy doc" by (cases doc) simp_all
    then show ?thesis
      using False d by (simp add: loadTasks_def loadTasksLocalStorage_def)
  qed
  show ?thesis
    by (simp add: load cleanup_run [OF load])
qed

theorem load_keeps_cleanup_drops_witness:
  "loadTasks staleStorageManager
       = Inr [JObj [(''id'', JStr ''a'')],
              JObj [(''id'', JStr ''b''), (''title'', JStr ''B''),
                    (''createdAt'', JStr ''2024-01-01''), (''updatedAt'', JStr ''2024-01-01'')]]
   \<and> cleanup ''2024-01-03'' staleStorageManager
       = (Inr [JObj [(''id'', JStr ''b''), (''title'', JStr ''B''),
                    (''createdAt'', JStr ''2024-01-01''), (''updatedAt'', JStr ''2024-01-01'')]],
          staleStorageManager\<lparr>localStorageItem := Some (JSONText (storedDocument ''2024-01-03''
            [JObj [(''id'', JStr ''b''), (''title'', JStr ''B''),
                   (''createdAt'', JStr ''2024-01-01''), (''updatedAt'', JStr ''2024-01-01'')]]))\<rparr>)
   \<and> loadTasks savedStorageManager = Inr twoTasks
   \<and> cleanup ''2024-01-04'' savedStorageManager = (Inr twoTasks, savedStorageManager)
   \<and> fst (cleanup ''2024-01-03'' (staleStorageManager\<lparr>localStorageAccepts := acceptsNothing\<rparr>))
       = Inl QuotaExceeded"
proof -
  let ?a = "JObj [(''id'', JStr ''a'')]"
  let ?b = "JObj [(''id'', JStr ''b''), (''title'', JStr ''B''),
                    (''createdAt'', JStr ''2024-01-01''), (''updatedAt'', JStr ''2024-01-01'')]"
  let ?doc = "JObj [(''version'', JStr ''1.0''), (''tasks'', JArr [?a, ?b])]"
  let ?full = "staleStorageManager\<lparr>localStorageAccepts := acceptsNothing\<rparr>"
  have stored: "if useIndexedDB staleStorageManager
      then db staleStorageManager \<and> \<not> getAllFails staleStorageManager
         \<and> objectStore staleStorageManager = [?a, ?b]
      else localStorageItem staleStorageManager = Some (JSONText ?doc)
         \<and> propOf ?doc ''tasks'' = JArr [?a, ?b]"
    by (simp add: staleStorageManager_def newStorageManager_def)
  have stored2: "if useIndexedDB savedStorageManager
      then db savedStorageManager \<and> \<not> getAllFails savedStorageManager
         \<and> objectStore savedStorageManager = twoTasks
      else localStorageItem savedStorageManager
           = Some (JSONText (storedDocument ''2024-01-03'' twoTasks))
         \<and> propOf (storedDocument ''2024-01-03'' twoTasks) ''tasks'' = JArr twoTasks"
    by (simp add: savedStorageManager_def newStorageManager_def storedDocument_def)
  have stored3: "if useIndexedDB ?full
      then db ?full \<and> \<not> getAllFails ?full \<and> objectStore ?full = [?a, ?b]
      else localStorageItem ?full = Some (JSONText ?doc)
         \<and> propOf ?doc ''tasks'' = JArr [?a, ?b]"
    by (simp add: staleStorageManager_def newStorageManager_def)
  have f: "filter hasRequiredFields [?a, ?b] = [?b]" "\<not> list_all hasRequiredFields [?a, ?b]"
    "list_all hasRequiredFields twoTasks"
    by (simp_all add: hasRequiredFields_def twoTasks_def)
  have sv: "saveTasks ''2024-01-03'' [?b] staleStorageManager
      = (Inr (), staleStorageManager\<lparr>localStorageItem :=
          Some (JSONText (storedDocument ''2024-01-03'' [?b]))\<rparr>)"
    by (simp add: saveTasks_def saveTasksLocalStorage_def staleStorageManager_def
        newStorageManager_def storedDocument_def Let_def)
  have sv3: "fst (saveTasks ''2024-01-03'' [?b] ?full) = Inl QuotaExceeded"
    by (simp add: saveTasks_def saveTasksLocalStorage_def staleStorageManager_def
        newStorageManager_def storedDocument_def Let_def)
  note T = load_keeps_cleanup_drops [OF stored, of "''2024-01-03''"]
  note T2 = load_keeps_cleanup_drops [OF stored2, of "''2024-01-04''"]
  note T3 = load_keeps_cleanup_drops [OF stored3, of "''2024-01-03''"]
  have c2: "cleanup ''2024-01-03'' staleStorageManager
      = (Inr [?b], staleStorageManager\<lparr>localStorageItem :=
          Some (JSONText (storedDocument ''2024-01-03'' [?b]))\<rparr>)"
    using T [THEN conjunct2, THEN conjunct2, rule_format, OF f(2), unfolded f(1) sv]
    by (simp add: prod_eq_iff)
  have c4: "cleanup ''2024-01-04'' savedStorageManager = (Inr twoTasks, savedStorageManager)"
    by (rule T2 [THEN conjunct2, THEN conjunct1, rule_format, OF f(3)])
  have c5: "fst (cleanup ''2024-01-03'' ?full) = Inl QuotaExceeded"
    using T3 [THEN conjunct2, THEN conjunct2, rule_format, OF f(2), unfolded f(1) sv3]
    by simp
  show ?thesis
    by (intro conjI T [THEN conjunct1] c2 T2 [THEN conjunct1] c4 c5)
qed

text \<open>
  The claim as stated fails: an entry that has only an \<^verbatim>\<open>id\<close> is returned by
  \<^verbatim>\<open>loadTasks()\<close>.
\<close>

theorem load_keeps_invalid_entry_counterexample:
  "loadTasks staleStorageManager
     = Inr [JObj [(''id'', JStr ''a'')],
            JObj [(''id'', JStr ''b''), (''title'', JStr ''B''),
                  (''createdAt'', JStr ''2024-01-01''), (''updatedAt'', JStr ''2024-01-01'')]]
   \<and> propOf (JObj [(''id'', JStr ''a'')]) ''title'' = JUndefined
   \<and> \<not> validEntry (JObj [(''id'', JStr ''a'')])"
  by (simp add: loadTasks_def loadTasksLocalStorage_def staleStorageManager_def
      newStorageManager_def validEntry_def)

text \<open>
  C7 (as amended). With the \<^verbatim>\<open>localStorage\<close> backend, \<^verbatim>\<open>loadTasks()\<close> never rejects,
  and it returns the empty array when nothing is stored, when the stored text is not JSON
  and when the parsed value has no array under \<^verbatim>\<open>tasks\<close>. With the IndexedDB backend
  an empty object store gives the empty array. Whenever the store's \<^verbatim>\<open>loadTasks()\<close>
  rejects, \<^verbatim>\<open>TaskManager.loadTasks()\<close> catches the error and continues with the empty
  array.
\<close>

theorem load_of_nothing:
  "(\<not> useIndexedDB st \<longrightarrow>
      \<not> isl (loadTasks st) \<and> (nothingReadable st \<longrightarrow> loadTasks st = Inr []))
   \<and> (useIndexedDB st \<and> db st \<and> \<not> getAllFails st \<and> objectStore st = [] \<longrightarrow> loadTasks st = Inr [])
   \<and> (isl (loadTasks (storageManager tm)) \<longrightarrow> managerLoadTasks tm = ([], tm\<lparr>tasks := []\<rparr>))"
proof (intro conjI impI)
  assume ls: "\<not> useIndexedDB st"
  then show "\<not> isl (loadTasks st)"
    by (simp add: loadTasks_def loadTasksLocalStorage_def split: option.splits lsText.splits)
  assume "nothingReadable st"
  then show "loadTasks st = Inr []"
    using ls
    by (auto simp: loadTasks_def loadTasksLocalStorage_def nothingReadable_def
        split: option.splits lsText.splits)
next
  assume "useIndexedDB st \<and> db st \<and> \<not> getAllFails st \<and> objectStore st = []"
  then show "loadTasks st = Inr []"
    by (simp add: loadTasks_def loadTasksIndexedDB_def)
next
  assume "isl (loadTasks (storageManager tm))"
  then show "managerLoadTasks tm = ([], tm\<lparr>tasks := []\<rparr>)"
    by (cases "loadTasks (storageManager tm)") (simp_all add: managerLoadTasks_def)
qed

theorem load_of_nothing_witness:
  "\<not> useIndexedDB newStorageManager \<and> nothingReadable newStorageManager
   \<and> loadTasks newStorageManager = Inr []
   \<and> \<not> useIndexedDB (newStorageManager\<lparr>localStorageItem := Some NotJSON\<rparr>)
   \<and> nothingReadable (newStorageManager\<lparr>localStorageItem := Some NotJSON\<rparr>)
   \<and> loadTasks (newStorageManager\<lparr>localStorageItem := Some NotJSON\<rparr>) = Inr []
   \<and> nothingReadable (newStorageManager\<lparr>localStorageItem :=
         Some (JSONText (JObj [(''tasks'', JStr ''none'')]))\<rparr>)
   \<and> loadTasks (newStorageManager\<lparr>localStorageItem :=
         Some (JSONText (JObj [(''tasks'', JStr ''none'')]))\<rparr>) = Inr []
   \<and> useIndexedDB indexedStorageManager \<and> db indexedStorageManager
   \<and> \<not> getAllFails indexedStorageManager \<and> objectStore indexedStorageManager = []
   \<and> loadTasks indexedStorageManager = Inr []
   \<and> isl (loadTasks (storageManager (newTaskManager\<lparr>storageManager := brokenStorageManager\<rparr>)))
   \<and> managerLoadTasks (newTaskManager\<lparr>storageManager := brokenStorageManager\<rparr>)
       = ([], newTaskManager\<lparr>storageManager := brokenStorageManager, tasks := []\<rparr>)"
proof -
  let ?s2 = "newStorageManager\<lparr>localStorageItem := Some NotJSON\<rparr>"
  let ?s3 = "newStorageManager\<lparr>localStorageItem :=
         Some (JSONText (JObj [(''tasks'', JStr ''none'')]))\<rparr>"
  let ?tm = "newTaskManager\<lparr>storageManager := brokenStorageManager\<rparr>"
  have h1: "\<not> useIndexedDB newStorageManager" "nothingReadable newStorageManager"
    and h2: "\<not> useIndexedDB ?s2" "nothingReadable ?s2"
    and h3: "\<not> useIndexedDB ?s3" "nothingReadable ?s3"
    and h4: "useIndexedDB indexedStorageManager \<and> db indexedStorageManager
      \<and> \<not> getAllFails indexedStorageManager \<and> objectStore indexedStorageManager = []"
    and h5: "isl (loadTasks (storageManager ?tm))"
    by (simp_all add: newStorageManager_def indexedStorageManager_def brokenStorageManager_def
        nothingReadable_def loadTasks_def loadTasksIndexedDB_def)
  note t1 = load_of_nothing [of newStorageManager, THEN conjunct1, rule_format, OF h1(1),
      THEN conjunct2, rule_format, OF h1(2)]
  note t2 = load_of_nothing [of ?s2, THEN conjunct1, rule_format, OF h2(1),
      THEN conjunct2, rule_format, OF h2(2)]
  note t3 = load_of_nothing [of ?s3, THEN conjunct1, rule_format, OF h3(1),
      THEN conjunct2, rule_format, OF h3(2)]
  note t4 = load_of_nothing [of indexedStorageManager, THEN conjunct2, THEN conjunct1,
      rule_format, OF h4]
  note t5 = load_of_nothing [of _ ?tm, THEN conjunct2, THEN conjunct2, rule_format, OF h5]
  have t5': "managerLoadTasks ?tm
      = ([], newTaskManager\<lparr>storageManager := brokenStorageManager, tasks := []\<rparr>)"
    using t5 by simp
  show ?thesis
    using h1 h2 h3 h4 h5 t1 t2 t3 t4 t5' by (intro conjI) simp_all
qed

text \<open>
  The claim as stated fails for the IndexedDB backend: when the \<^verbatim>\<open>getAll\<close> request
  ends in \<^verbatim>\<open>onerror\<close>, the store's \<^verbatim>\<open>loadTasks()\<close> is rejected with the request's
  error.
\<close>

theorem load_rejects_counterexample:
  "useIndexedDB brokenStorageManager \<and> db brokenStorageManager
   \<and> getAllFails brokenStorageManager
   \<and> loadTasks brokenStorageManager = Inl RequestError"
  by (simp add: brokenStorageManager_def indexedStorageManager_def newStorageManager_def
      loadTasks_def loadTasksIndexedDB_def)

text \<open>
  C8 (as amended). Let \<open>T\<close> be a valid array of tasks: every task is a JSON value with a valid key as
  its \<^verbatim>\<open>id\<close>, and no id occurs twice. On a store that is ready to take it (the text
  fits the quota of \<^verbatim>\<open>localStorage\<close>, or the database is open and readable),
  \<^verbatim>\<open>saveTasks(T)\<close> succeeds and the following \<^verbatim>\<open>loadTasks()\<close> returns the tasks of
  \<open>T\<close>, each with every field as it was: in another order with IndexedDB, which
  returns them by key, and in the same order with \<^verbatim>\<open>localStorage\<close>.
\<close>

theorem save_then_load:
  assumes json: "list_all isJson T" and keys: "list_all (\<lambda>t. validKey (taskId t)) T"
    and ids: "distinct (map taskId T)"
    and ready: "if useIndexedDB st then db st \<and> \<not> getAllFails st
                else localStorageAccepts st (jsonValue (storedDocument now T))"
  shows "fst (saveTasks now T st) = Inr ()
       \<and> (\<exists>T'. loadTasks (snd (saveTasks now T st)) = Inr T' \<and> mset T' = mset T
             \<and> (useIndexedDB st \<or> T' = T))"
proof (cases "useIndexedDB st")
  case True
  then have r: "db st" "\<not> getAllFails st" using ready by simp_all
  note s = load_after_save_indexedDB [OF True r keys ids, of now]
  have "mset (addRecords [] T) = mset T"
    by (simp add: mset_addRecords)
  then show ?thesis
    using s True by simp
next
  case False
  then have r: "localStorageAccepts st (jsonValue (storedDocument now T))"
    using ready by simp
  note s = load_after_save_localStorage [OF False json r]
  show ?thesis
    using s by simp
qed

theorem save_then_load_witness:
  "list_all isJson twoTasks \<and> list_all (\<lambda>t. validKey (taskId t)) twoTasks
   \<and> distinct (map taskId twoTasks)
   \<and> (if useIndexedDB newStorageManager
       then db newStorageManager \<and> \<not> getAllFails newStorageManager
       else localStorageAccepts newStorageManager (jsonValue (storedDocument ''2024-01-03'' twoTasks)))
   \<and> fst (saveTasks ''2024-01-03'' twoTasks newStorageManager) = Inr ()
   \<and> loadTasks (snd (saveTasks ''2024-01-03'' twoTasks newStorageManager)) = Inr twoTasks
   \<and> (if useIndexedDB indexedStorageManager
       then db indexedStorageManager \<and> \<not> getAllFails indexedStorageManager
       else localStorageAccepts indexedStorageManager (jsonValue (storedDocument ''2024-01-03'' twoTasks)))
   \<and> fst (saveTasks ''2024-01-03'' twoTasks indexedStorageManager) = Inr ()
   \<and> loadTasks (snd (saveTasks ''2024-01-03'' twoTasks indexedStorageManager)) = Inr (rev twoTasks)"
proof -
  have r1: "if useIndexedDB newStorageManager
       then db newStorageManager \<and> \<not> getAllFails newStorageManager
       else localStorageAccepts newStorageManager (jsonValue (storedDocument ''2024-01-03'' twoTasks))"
    by (simp add: newStorageManager_def)
  have r2: "if useIndexedDB indexedStorageManager
       then db indexedStorageManager \<and> \<not> getAllFails indexedStorageManager
       else localStorageAccepts indexedStorageManager (jsonValue (storedDocument ''2024-01-03'' twoTasks))"
    by (simp add: indexedStorageManager_def newStorageManager_def)
  note a = save_then_load [OF twoTasks_valid r1]
  note b = save_then_load [OF twoTasks_valid r2]
  have la: "loadTasks (snd (saveTasks ''2024-01-03'' twoTasks newStorageManager)) = Inr twoTasks"
    using a by (auto simp: newStorageManager_def)
  have lb: "loadTasks (snd (saveTasks ''2024-01-03'' twoTasks indexedStorageManager))
      = Inr (rev twoTasks)"
    by (simp add: indexedStorageManager_def newStorageManager_def saveTasks_def
        saveTasksIndexedDB_def loadTasks_def loadTasksIndexedDB_def twoTasks_def taskId_def Let_def)
  show ?thesis
    by (intro conjI twoTasks_valid r1 r2 a [THEN conjunct1] b [THEN conjunct1] la lb)
qed

text \<open>
  The claim as stated fails on a store that is not ready. When the quota of
  \<^verbatim>\<open>localStorage\<close> is exceeded, \<^verbatim>\<open>saveTasks(T)\<close> rejects and the following
  \<^verbatim>\<open>loadTasks()\<close> returns the empty array. When \<^verbatim>\<open>getAll\<close> fails on the database, the
  save succeeds and the following \<^verbatim>\<open>loadTasks()\<close> rejects.
\<close>

theorem save_then_load_counterexample:
  "list_all isJson twoTasks \<and> list_all validKey (map taskId twoTasks)
   \<and> distinct (map taskId twoTasks)
   \<and> saveTasks ''2024-01-03'' twoTasks fullStorageManager = (Inl QuotaExceeded, fullStorageManager)
   \<and> loadTasks (snd (saveTasks ''2024-01-03'' twoTasks fullStorageManager)) = Inr []
   \<and> fst (saveTasks ''2024-01-03'' twoTasks brokenStorageManager) = Inr ()
   \<and> loadTasks (snd (saveTasks ''2024-01-03'' twoTasks brokenStorageManager)) = Inl RequestError"
  by (simp add: twoTasks_def taskId_def fullStorageManager_def brokenStorageManager_def
      indexedStorageManager_def newStorageManager_def saveTasks_def saveTasksLocalStorage_def
      saveTasksIndexedDB_def loadTasks_def loadTasksLocalStorage_def loadTasksIndexedDB_def Let_def)

section \<open>The claims on the task manager\<close>

text \<open>
  C9 (as amended). \<^verbatim>\<open>createTask\<close> and \<^verbatim>\<open>updateTask\<close> preserve the invariant that the
  title of every task held by the task manager is a non-empty string, whether they return
  or throw. \<^verbatim>\<open>loadTasks\<close> and the merge of \<^verbatim>\<open>syncWithServer\<close> do not validate titles: they
  preserve the invariant when the entries read from the store, respectively the tasks sent
  by the server, satisfy it themselves.
\<close>

theorem titles_stay_nonempty:
  "(titlesOk (tasks tm) \<longrightarrow> titlesOk (tasks (snd (createTask env taskData tm))))
   \<and> (titlesOk (tasks tm) \<longrightarrow> titlesOk (tasks (snd (updateTask now saved tid updates tm))))
   \<and> ((case loadTasks (storageManager tm) of Inl e \<Rightarrow> True | Inr entries \<Rightarrow> titlesOk entries)
        \<longrightarrow> titlesOk (tasks (snd (managerLoadTasks tm))))
   \<and> (titlesOk (tasks tm)
        \<and> (case response of Inl e \<Rightarrow> True | Inr serverTasks \<Rightarrow> titlesOk serverTasks)
        \<longrightarrow> titlesOk (tasks (snd (syncWithServer D saved synced response tm))))"
proof (intro conjI impI)
  assume ok: "titlesOk (tasks tm)"
  from createTask_tasks [of env taskData tm] ok
  show "titlesOk (tasks (snd (createTask env taskData tm)))"
    by (auto simp: titlesOk_append)
next
  assume ok: "titlesOk (tasks tm)"
  from updateTask_tasks [of now saved tid updates tm] ok
  show "titlesOk (tasks (snd (updateTask now saved tid updates tm)))"
    by (auto simp: titlesOk_update)
next
  assume "case loadTasks (storageManager tm) of Inl e \<Rightarrow> True | Inr entries \<Rightarrow> titlesOk entries"
  then show "titlesOk (tasks (snd (managerLoadTasks tm)))"
    by (cases "loadTasks (storageManager tm)")
      (auto simp: managerLoadTasks_def titlesOk_def split: prod.splits sum.splits
        dest!: emit_result)
next
  assume a: "titlesOk (tasks tm)
      \<and> (case response of Inl e \<Rightarrow> True | Inr serverTasks \<Rightarrow> titlesOk serverTasks)"
  from syncWithServer_tasks [of D saved synced response tm]
  show "titlesOk (tasks (snd (syncWithServer D saved synced response tm)))"
  proof
    assume "tasks (snd (syncWithServer D saved synced response tm)) = tasks tm"
    then show ?thesis using a by simp
  next
    assume "\<exists>serverTasks. response = Inr serverTasks
        \<and> set (tasks (snd (syncWithServer D saved synced response tm)))
            \<subseteq> set (tasks tm) \<union> set serverTasks"
    then obtain serverTasks where s: "response = Inr serverTasks"
      "set (tasks (snd (syncWithServer D saved synced response tm)))
            \<subseteq> set (tasks tm) \<union> set serverTasks"
      by blast
    from a s(1) have "titlesOk serverTasks" by simp
    with s(2) a show ?thesis by (blast intro: titlesOk_subset)
  qed
qed

theorem titles_stay_nonempty_witness:
  "titlesOk (tasks (newTaskManager\<lparr>tasks := twoTasks\<rparr>))
   \<and> titlesOk (tasks (snd (createTask exampleEnv (JObj [(''title'', JStr ''Water plants'')])
         (newTaskManager\<lparr>tasks := twoTasks\<rparr>))))
   \<and> titlesOk (tasks (snd (updateTask ''2024-01-04'' ''2024-01-04'' ''a''
         [(''title'', JStr ''Call Bob'')] (newTaskManager\<lparr>tasks := twoTasks\<rparr>))))
   \<and> (case loadTasks (storageManager (newTaskManager\<lparr>storageManager := savedStorageManager\<rparr>)) of
        Inl e \<Rightarrow> True | Inr entries \<Rightarrow> titlesOk entries)
   \<and> titlesOk (tasks (snd (managerLoadTasks
         (newTaskManager\<lparr>storageManager := savedStorageManager\<rparr>))))
   \<and> (case (Inr [mkTask ''c'' ''C'' ''2024-01-01''] :: error + jsval list) of
        Inl e \<Rightarrow> True | Inr serverTasks \<Rightarrow> titlesOk serverTasks)
   \<and> titlesOk (tasks (snd (syncWithServer exampleDate ''2024-01-04'' (JStr ''2024-01-04'')
         (Inr [mkTask ''c'' ''C'' ''2024-01-01'']) (newTaskManager\<lparr>tasks := twoTasks\<rparr>))))"
proof -
  let ?tm = "newTaskManager\<lparr>tasks := twoTasks\<rparr>"
  let ?tl = "newTaskManager\<lparr>storageManager := savedStorageManager\<rparr>"
  let ?resp = "Inr [mkTask ''c'' ''C'' ''2024-01-01''] :: error + jsval list"
  have h1: "titlesOk (tasks ?tm)"
    by (simp add: titlesOk_def twoTasks_def taskTitle_def)
  have h3: "case loadTasks (storageManager ?tl) of Inl e \<Rightarrow> True | Inr entries \<Rightarrow> titlesOk entries"
    by (simp add: savedStorageManager_def newStorageManager_def loadTasks_def
        loadTasksLocalStorage_def storedDocument_def titlesOk_def twoTasks_def taskTitle_def)
  have h4: "case ?resp of Inl e \<Rightarrow> True | Inr serverTasks \<Rightarrow> titlesOk serverTasks"
    by (simp add: titlesOk_def mkTask_def taskTitle_def)
  note c1 = titles_stay_nonempty [where tm = ?tm and env = exampleEnv
      and taskData = "JObj [(''title'', JStr ''Water plants'')]",
      THEN conjunct1, rule_format, OF h1]
  note c2 = titles_stay_nonempty [where tm = ?tm and now = "''2024-01-04''"
      and saved = "''2024-01-04''" and tid = "''a''" and updates = "[(''title'', JStr ''Call Bob'')]", THEN conjunct2, THEN conjunct1, rule_format, OF h1]
  note c3 = titles_stay_nonempty [where tm = ?tl, THEN conjunct2, THEN conjunct2, THEN conjunct1,
      rule_format, OF h3]
  note c4 = titles_stay_nonempty [where tm = ?tm and response = ?resp and D = exampleDate
      and saved = "''2024-01-04''" and synced = "JStr ''2024-01-04''", THEN conjunct2, THEN conjunct2, THEN conjunct2, rule_format,
      OF conjI [OF h1 h4]]
  show ?thesis
    by (intro conjI h1 h3 h4 c1 c2 c3 c4)
qed


text \<open>
  The invariant is not preserved by \<^verbatim>\<open>loadTasks\<close> and by the merge without that
  condition: a stored entry, and a task of the server, with the empty string as title
  becomes a task of the manager.
\<close>

theorem titles_stay_nonempty_counterexample:
  "titlesOk (tasks (newTaskManager\<lparr>storageManager := blankTitleStorage\<rparr>))
   \<and> tasks (snd (managerLoadTasks (newTaskManager\<lparr>storageManager := blankTitleStorage\<rparr>)))
     = [mkTask ''a'' [] ''2024-01-01'']
   \<and> titlesOk (tasks newTaskManager)
   \<and> tasks (snd (syncWithServer exampleDate ''2024-01-03'' (JStr ''2024-01-03'')
        (Inr [mkTask ''a'' [] ''2024-01-01'']) newTaskManager))
     = [mkTask ''a'' [] ''2024-01-01'']
   \<and> \<not> titlesOk [mkTask ''a'' [] ''2024-01-01'']"
  by (simp add: newTaskManager_def blankTitleStorage_def newStorageManager_def titlesOk_def
      managerLoadTasks_def loadTasks_def loadTasksLocalStorage_def storedDocument_def
      syncWithServer_def mergeTasks_def saveTasks_def saveTasksLocalStorage_def
      mapValues_def mkTask_def taskTitle_def Let_def emit_def listenersOf_def)





end
